theory Spec2Isabelle
  imports Complex_Main
begin

section \<open>minarg: a shallow embedding of \<^verbatim>\<open>include/minarg/minarg.hpp\<close>\<close>

text \<open>
  The header is one C++ namespace: the two exceptions, the value codec
  (\<^verbatim>\<open>fromString\<close>, \<^verbatim>\<open>toString\<close>), the polymorphic argument classes and the
  \<^verbatim>\<open>Parser\<close> with its parse stages and its help writer. Exceptions are values of a
  sum type, the iterator \<^verbatim>\<open>it\<close> is the list of tokens that are still unread
  (\<^verbatim>\<open>it == end\<close> is the empty list), and the caller's variables the arguments are
  bound to by reference are cells of an explicit store.
\<close>

subsection \<open>Exceptions\<close>

text \<open>\<^verbatim>\<open>struct Error\<close> carries a message, \<^verbatim>\<open>struct Signal\<close> a short and a long name.\<close>

datatype failure = Error string | Signal char string

text \<open>The two exceptions of \<^verbatim>\<open>std::stoll\<close> and \<^verbatim>\<open>std::stoull\<close>.\<close>

datatype std_exception = invalid_argument | out_of_range

subsection \<open>The standard library's integer conversion\<close>

text \<open>
  \<^verbatim>\<open>std::stoll(s, &pos, base)\<close> and \<^verbatim>\<open>std::stoull\<close> call \<^verbatim>\<open>strtoll\<close> and
  \<^verbatim>\<open>strtoull\<close>: white space is skipped, one sign is read, for base 16 a prefix
  \<^verbatim>\<open>0x\<close> or \<^verbatim>\<open>0X\<close> is skipped when a hexadecimal digit follows it, and the longest
  run of digits of the base is converted. No digit is \<^verbatim>\<open>invalid_argument\<close>, a value
  outside the 64-bit result type is \<^verbatim>\<open>out_of_range\<close>; \<^verbatim>\<open>pos\<close> is the number of
  characters read.
\<close>

definition isspace :: "char \<Rightarrow> bool" where
  "isspace c = (c = CHR '' '' \<or> (9 \<le> (of_char c :: nat) \<and> (of_char c :: nat) \<le> 13))"

definition digitVal :: "char \<Rightarrow> nat" where
  "digitVal c =
     (let n = (of_char c :: nat) in
      if 48 \<le> n \<and> n \<le> 57 then n - 48
      else if 97 \<le> n \<and> n \<le> 122 then n - 87
      else if 65 \<le> n \<and> n \<le> 90 then n - 55
      else 36)"

definition isDigitOf :: "nat \<Rightarrow> char \<Rightarrow> bool" where
  "isDigitOf base c = (digitVal c < base)"

definition digitsValue :: "nat \<Rightarrow> string \<Rightarrow> nat" where
  "digitsValue base ds = foldl (\<lambda>a c. a * base + digitVal c) 0 ds"

text \<open>The sign: whether it is a minus, and how many characters it takes.\<close>

definition readSign :: "string \<Rightarrow> bool \<times> nat" where
  "readSign s =
     (case s of
        [] \<Rightarrow> (False, 0)
      | c # _ \<Rightarrow> if c = CHR ''-'' then (True, 1) else if c = CHR ''+'' then (False, 1) else (False, 0))"

definition hexPrefix :: "nat \<Rightarrow> string \<Rightarrow> nat" where
  "hexPrefix base s =
     (case s of
        c0 # c1 # c2 # _ \<Rightarrow>
          if base = 16 \<and> c0 = CHR ''0'' \<and> (c1 = CHR ''x'' \<or> c1 = CHR ''X'') \<and> isDigitOf 16 c2
          then 2 else 0
      | _ \<Rightarrow> 0)"

text \<open>The scan shared by both: the sign, the magnitude and \<^verbatim>\<open>pos\<close>; \<open>None\<close> when no
  digit is found.\<close>

definition strtoScan :: "string \<Rightarrow> nat \<Rightarrow> (bool \<times> nat \<times> nat) option" where
  "strtoScan s base =
     (let ws = length (takeWhile isspace s);
          s1 = drop ws s;
          (neg, sg) = readSign s1;
          s2 = drop sg s1;
          px = hexPrefix base s2;
          s3 = drop px s2;
          ds = takeWhile (isDigitOf base) s3
      in if ds = [] then None
         else Some (neg, digitsValue base ds, ws + sg + px + length ds))"

definition stoll :: "string \<Rightarrow> nat \<Rightarrow> std_exception + (int \<times> nat)" where
  "stoll s base =
     (case strtoScan s base of
        None \<Rightarrow> Inl invalid_argument
      | Some (neg, m, pos) \<Rightarrow>
          (let v = (if neg then - int m else int m) in
           if v < - (2 ^ 63) \<or> 2 ^ 63 - 1 < v then Inl out_of_range else Inr (v, pos)))"

definition stoull :: "string \<Rightarrow> nat \<Rightarrow> std_exception + (int \<times> nat)" where
  "stoull s base =
     (case strtoScan s base of
        None \<Rightarrow> Inl invalid_argument
      | Some (neg, m, pos) \<Rightarrow>
          if 2 ^ 64 - 1 < int m then Inl out_of_range
          else Inr (if neg then (2 ^ 64 - int m) mod 2 ^ 64 else int m, pos))"

subsection \<open>String to value\<close>

text \<open>
  The types \<^verbatim>\<open>T\<close> of a value argument that the embedding covers: the fixed-width
  integers (signedness and width), the floating point types \<^verbatim>\<open>float\<close> and
  \<^verbatim>\<open>double\<close> (IEEE binary32 and binary64) and \<^verbatim>\<open>std::string\<close>. A floating point
  value is the rational number it denotes; the infinities and NaN are left out, and the
  two zeros are one value.
\<close>

datatype width = W8 | W16 | W32 | W64

fun bits :: "width \<Rightarrow> nat" where
  "bits W8 = 8"
| "bits W16 = 16"
| "bits W32 = 32"
| "bits W64 = 64"

datatype fwidth = F32 | F64

datatype vtype = IntT bool width | FloatT fwidth | StrT

datatype val = IntV int | FloatV rat | StrV string

text \<open>\<^verbatim>\<open>std::numeric_limits<T>::min()\<close> and \<^verbatim>\<open>max()\<close>.\<close>

definition limitMin :: "bool \<Rightarrow> width \<Rightarrow> int" where
  "limitMin sg w = (if sg then - (2 ^ (bits w - 1)) else 0)"

definition limitMax :: "bool \<Rightarrow> width \<Rightarrow> int" where
  "limitMax sg w = (if sg then 2 ^ (bits w - 1) - 1 else 2 ^ bits w - 1)"

text \<open>\<^verbatim>\<open>toLongest<T>\<close>: the unsigned overload throws the library's own \<^verbatim>\<open>Error\<close> when
  the token has a minus anywhere; that exception is not caught by \<^verbatim>\<open>fromString\<close>.\<close>

definition toLongest :: "bool \<Rightarrow> string \<Rightarrow> nat \<Rightarrow> failure + (std_exception + (int \<times> nat))" where
  "toLongest sg s base =
     (if sg then Inr (stoll s base)
      else if CHR ''-'' \<in> set s then Inl (Error (''Cannot parse unsigned integer: '' @ s))
      else Inr (stoull s base))"

text \<open>\<^verbatim>\<open>s.find_first_of("Xx") == npos ? 10 : 16\<close>.\<close>

definition baseOf :: "string \<Rightarrow> nat" where
  "baseOf s = (if \<exists>c \<in> set s. c = CHR ''X'' \<or> c = CHR ''x'' then 16 else 10)"

definition fromStringInt :: "bool \<Rightarrow> width \<Rightarrow> string \<Rightarrow> failure + int" where
  "fromStringInt sg w s =
     (case toLongest sg s (baseOf s) of
        Inl e \<Rightarrow> Inl e
      | Inr (Inl _) \<Rightarrow> Inl (Error (''Cannot parse integer: '' @ s))
      | Inr (Inr (v, pos)) \<Rightarrow>
          if pos = length s \<and> limitMin sg w \<le> v \<and> v \<le> limitMax sg w then Inr v
          else Inl (Error (''Cannot parse integer: '' @ s)))"

text \<open>
  The non-integral overload reads the value with the stream operator of its type, skips
  the white space after it and throws unless the read succeeded and the stream is at
  its end. The operator is a parameter here: it returns the value and the characters it
  left unread, or nothing when it sets \<^verbatim>\<open>failbit\<close>.
\<close>

definition fromStringStream :: "(string \<Rightarrow> ('a \<times> string) option) \<Rightarrow> string \<Rightarrow> failure + 'a" where
  "fromStringStream extract s =
     (case extract s of
        None \<Rightarrow> Inl (Error (''Cannot parse value: '' @ s))
      | Some (v, rest) \<Rightarrow>
          if dropWhile isspace rest = [] then Inr v
          else Inl (Error (''Cannot parse value: '' @ s)))"

text \<open>
  \<^verbatim>\<open>operator>>\<close> of \<^verbatim>\<open>float\<close> and \<^verbatim>\<open>double\<close>. The stream skips white space and
  collects a sign, decimal digits with at most one point among them and, once a digit
  was seen, an exponent letter with a sign and digits; the text collected is converted
  by \<^verbatim>\<open>strtof\<close> or \<^verbatim>\<open>strtod\<close>, which must take all of it: no digit in the
  significand, or an exponent letter without digits, sets \<^verbatim>\<open>failbit\<close>. The result is
  the number of the type nearest to the decimal number, ties to the even significand;
  a result beyond the largest finite number sets \<^verbatim>\<open>failbit\<close>.
\<close>

fun mantBits :: "fwidth \<Rightarrow> nat" where
  "mantBits F32 = 24"
| "mantBits F64 = 53"

fun expMin :: "fwidth \<Rightarrow> int" where
  "expMin F32 = - 126"
| "expMin F64 = - 1022"

fun expMax :: "fwidth \<Rightarrow> int" where
  "expMax F32 = 127"
| "expMax F64 = 1023"

definition powInt :: "rat \<Rightarrow> int \<Rightarrow> rat" where
  "powInt b e = (if 0 \<le> e then b ^ nat e else 1 / b ^ nat (- e))"

text \<open>The integer part of the logarithm to the base \<open>b\<close> of a positive number.\<close>

fun natLog :: "nat \<Rightarrow> nat \<Rightarrow> nat" where
  "natLog b n = (if b < 2 \<or> n < b then 0 else Suc (natLog b (n div b)))"

declare natLog.simps [simp del]

definition floorLog :: "nat \<Rightarrow> rat \<Rightarrow> int" where
  "floorLog b a =
     (if 1 \<le> a then int (natLog b (nat \<lfloor>a\<rfloor>))
      else - int (natLog b (nat (\<lceil>1 / a\<rceil> - 1))) - 1)"

definition roundHalfEven :: "rat \<Rightarrow> int" where
  "roundHalfEven y =
     (let f = \<lfloor>y\<rfloor>; r = y - of_int f in
      if r < 1 / 2 then f else if 1 / 2 < r then f + 1 else if even f then f else f + 1)"

definition nearestMagnitude :: "fwidth \<Rightarrow> rat \<Rightarrow> rat option" where
  "nearestMagnitude w a =
     (let e = max (floorLog 2 a) (expMin w);
          ulp = powInt 2 (e - int (mantBits w) + 1);
          y = of_int (roundHalfEven (a / ulp)) * ulp
      in if powInt 2 (expMax w + 1) \<le> y then None else Some y)"

definition nearest :: "fwidth \<Rightarrow> rat \<Rightarrow> rat option" where
  "nearest w x =
     (if x = 0 then Some 0
      else
        (case nearestMagnitude w \<bar>x\<bar> of
           None \<Rightarrow> None
         | Some y \<Rightarrow> Some (if x < 0 then - y else y)))"

definition scanFloat :: "string \<Rightarrow> (rat \<times> string) option" where
  "scanFloat s =
     (let s0 = dropWhile isspace s;
          (neg, sg) = readSign s0;
          s1 = drop sg s0;
          ip = takeWhile (isDigitOf 10) s1;
          s2 = drop (length ip) s1;
          hasPoint = (s2 \<noteq> [] \<and> hd s2 = CHR ''.'');
          fp = (if hasPoint then takeWhile (isDigitOf 10) (tl s2) else []);
          s3 = (if hasPoint then drop (length fp) (tl s2) else s2);
          hasExp = (ip @ fp \<noteq> [] \<and> s3 \<noteq> [] \<and> (hd s3 = CHR ''e'' \<or> hd s3 = CHR ''E''));
          (eneg, esg) = readSign (tl s3);
          ed = takeWhile (isDigitOf 10) (drop esg (tl s3));
          s4 = (if hasExp then drop (esg + length ed) (tl s3) else s3);
          ex = (if hasExp then (if eneg then - int (digitsValue 10 ed) else int (digitsValue 10 ed))
                else 0);
          m = of_nat (digitsValue 10 (ip @ fp)) * powInt 10 (ex - int (length fp))
      in if ip @ fp = [] \<or> (hasExp \<and> ed = []) then None
         else Some (if neg then - m else m, s4))"

definition extractFloat :: "fwidth \<Rightarrow> string \<Rightarrow> (rat \<times> string) option" where
  "extractFloat w s =
     (case scanFloat s of
        None \<Rightarrow> None
      | Some (x, rest) \<Rightarrow> (case nearest w x of None \<Rightarrow> None | Some y \<Rightarrow> Some (y, rest)))"

fun fromString :: "vtype \<Rightarrow> string \<Rightarrow> failure + val" where
  "fromString (IntT sg w) s = (case fromStringInt sg w s of Inl e \<Rightarrow> Inl e | Inr v \<Rightarrow> Inr (IntV v))"
| "fromString (FloatT w) s =
     (case fromStringStream (extractFloat w) s of Inl e \<Rightarrow> Inl e | Inr x \<Rightarrow> Inr (FloatV x))"
| "fromString StrT s = Inr (StrV s)"

subsection \<open>Value to string\<close>

text \<open>An integer is cast to \<^verbatim>\<open>intmax_t\<close> or \<^verbatim>\<open>uintmax_t\<close> and written by the stream
  in decimal; a string is written between two double quotes; any other value is
  written by the stream operator of its type.\<close>

definition digitChar :: "nat \<Rightarrow> char" where
  "digitChar d = char_of (48 + d)"

fun decDigits :: "nat \<Rightarrow> string" where
  "decDigits n = (if n < 10 then [digitChar n] else decDigits (n div 10) @ [digitChar (n mod 10)])"

declare decDigits.simps [simp del]

definition showInt :: "int \<Rightarrow> string" where
  "showInt i = (if i < 0 then CHR ''-'' # decDigits (nat (- i)) else decDigits (nat i))"

text \<open>
  \<^verbatim>\<open>operator<<\<close> of \<^verbatim>\<open>float\<close> and \<^verbatim>\<open>double\<close> on a new stream: the conversion
  \<^verbatim>\<open>%g\<close> with the precision 6. The number is rounded to six significant decimal
  digits, ties to even; with \<open>X\<close> the decimal exponent of the rounded number, the
  notation is scientific when \<open>X < -4\<close> or \<open>6 \<le> X\<close> and fixed otherwise, and the zeros
  at the end of the fraction are left out, with the point when no digit follows it.
\<close>

definition withFraction :: "string \<Rightarrow> string \<Rightarrow> string" where
  "withFraction ip fr =
     (let f = rev (dropWhile (\<lambda>c. c = CHR ''0'') (rev fr)) in
      if f = [] then ip else ip @ ''.'' @ f)"

definition expText :: "int \<Rightarrow> string" where
  "expText X =
     (if X < 0 then ''-'' else ''+'')
     @ (if \<bar>X\<bar> < 10 then ''0'' else []) @ decDigits (nat \<bar>X\<bar>)"

definition showMagnitude :: "rat \<Rightarrow> string" where
  "showMagnitude a =
     (let X0 = floorLog 10 a;
          m0 = roundHalfEven (a * powInt 10 (5 - X0));
          m = (if m0 = 10 ^ 6 then 10 ^ 5 else m0);
          X = (if m0 = 10 ^ 6 then X0 + 1 else X0);
          ds = decDigits (nat m)
      in if X < - 4 \<or> 6 \<le> X then withFraction [hd ds] (tl ds) @ ''e'' @ expText X
         else if 0 \<le> X then withFraction (take (nat X + 1) ds) (drop (nat X + 1) ds)
         else withFraction ''0'' (replicate (nat (- X - 1)) (CHR ''0'') @ ds))"

definition showFloat :: "rat \<Rightarrow> string" where
  "showFloat x =
     (if x = 0 then ''0'' else (if x < 0 then ''-'' else []) @ showMagnitude \<bar>x\<bar>)"

fun toString :: "val \<Rightarrow> string" where
  "toString (IntV i) = showInt i"
| "toString (FloatV x) = showFloat x"
| "toString (StrV s) = [CHR 0x22] @ s @ [CHR 0x22]"

subsection \<open>Polymorphic argument types\<close>

text \<open>
  The four classes derived from \<^verbatim>\<open>Arg\<close> are the constructors of \<open>kind\<close>; the
  reference \<^verbatim>\<open>target_\<close> is the address of a cell of the store below, and a
  \<^verbatim>\<open>ValueArg\<close> keeps \<^verbatim>\<open>default_\<close>, the copy of the target it made when it was
  constructed.
\<close>

datatype kind = SignalArg | BoolArg nat | ValueArg vtype nat val | SinkArg vtype nat

record arg =
  shortName :: char
  longName :: string
  valueName :: string
  description :: string
  isRequired :: bool
  hasValue :: bool
  isSink :: bool
  isDone :: bool
  kind :: kind

text \<open>The constructors of the four classes, with the flags each passes to \<^verbatim>\<open>Arg\<close>.\<close>

definition mkSignalArg :: "char \<Rightarrow> string \<Rightarrow> string \<Rightarrow> arg" where
  "mkSignalArg sn lname desc =
     \<lparr>shortName = sn, longName = lname, valueName = [], description = desc,
      isRequired = False, hasValue = False, isSink = False, isDone = False, kind = SignalArg\<rparr>"

definition mkBoolArg :: "char \<Rightarrow> string \<Rightarrow> string \<Rightarrow> bool \<Rightarrow> nat \<Rightarrow> arg" where
  "mkBoolArg sn lname desc req target =
     \<lparr>shortName = sn, longName = lname, valueName = [], description = desc,
      isRequired = req, hasValue = False, isSink = False, isDone = False, kind = BoolArg target\<rparr>"

definition mkValueArg ::
  "vtype \<Rightarrow> char \<Rightarrow> string \<Rightarrow> string \<Rightarrow> string \<Rightarrow> bool \<Rightarrow> nat \<Rightarrow> val \<Rightarrow> arg" where
  "mkValueArg T sn lname vn desc req target current =
     \<lparr>shortName = sn, longName = lname, valueName = vn, description = desc,
      isRequired = req, hasValue = True, isSink = False, isDone = False,
      kind = ValueArg T target current\<rparr>"

definition mkSinkArg :: "vtype \<Rightarrow> string \<Rightarrow> string \<Rightarrow> bool \<Rightarrow> nat \<Rightarrow> arg" where
  "mkSinkArg T vn desc req target =
     \<lparr>shortName = CHR 0x00, longName = [], valueName = vn, description = desc,
      isRequired = req, hasValue = True, isSink = True, isDone = False, kind = SinkArg T target\<rparr>"

text \<open>\<^verbatim>\<open>Arg::getDefaultValue\<close> with the override of \<^verbatim>\<open>ValueArg::doGetDefaultValue\<close>.\<close>

definition doGetDefaultValue :: "arg \<Rightarrow> string" where
  "doGetDefaultValue a = (case kind a of ValueArg T target d \<Rightarrow> toString d | _ \<Rightarrow> [])"

definition getDefaultValue :: "arg \<Rightarrow> string" where
  "getDefaultValue a = (if isRequired a then [] else doGetDefaultValue a)"

subsection \<open>The parser and the caller's variables\<close>

text \<open>
  The fields of \<^verbatim>\<open>class Parser\<close>, followed by the store of the caller's variables
  that the arguments refer to: \<open>bools\<close> for the \<^verbatim>\<open>bool&\<close> targets, \<open>vars\<close> for the
  \<^verbatim>\<open>T&\<close> targets and \<open>sinks\<close> for the \<^verbatim>\<open>Container<T>&\<close> targets, each indexed by
  address. Two arguments may hold the same address.
\<close>

record parser =
  shortPrefix :: char
  longPrefix :: string
  longSeparator :: char
  terminator :: string
  isTerminated :: bool
  helpProlog :: string
  helpEpilog :: string
  usageTitle :: string
  optionsTitle :: string
  operandsTitle :: string
  utilityName :: string
  optionsUsage :: string
  operandsUsage :: string
  defaultIntro :: string
  helpWidth :: nat
  helpIndent :: nat
  options :: "arg list"
  operands :: "arg list"
  bools :: "nat \<Rightarrow> bool"
  vars :: "nat \<Rightarrow> val"
  sinks :: "nat \<Rightarrow> val list"

text \<open>The constructor with the default member initialisers, over a given store.\<close>

definition newParser ::
  "string \<Rightarrow> string \<Rightarrow> (nat \<Rightarrow> bool) \<Rightarrow> (nat \<Rightarrow> val) \<Rightarrow> (nat \<Rightarrow> val list) \<Rightarrow> parser" where
  "newParser prolog epilog bs vs ss =
     \<lparr>shortPrefix = CHR ''-'', longPrefix = ''--'', longSeparator = CHR ''='',
      terminator = ''--'', isTerminated = False,
      helpProlog = prolog, helpEpilog = epilog, usageTitle = ''USAGE'',
      optionsTitle = ''OPTIONS'', operandsTitle = ''OPERANDS'', utilityName = [],
      optionsUsage = [], operandsUsage = [], defaultIntro = ''default: '',
      helpWidth = 80, helpIndent = 2, options = [], operands = [],
      bools = bs, vars = vs, sinks = ss\<rparr>"

definition addSignal :: "char \<Rightarrow> string \<Rightarrow> string \<Rightarrow> parser \<Rightarrow> parser" where
  "addSignal sn lname desc p = p\<lparr>options := options p @ [mkSignalArg sn lname desc]\<rparr>"

definition addOptionBool :: "nat \<Rightarrow> char \<Rightarrow> string \<Rightarrow> string \<Rightarrow> bool \<Rightarrow> parser \<Rightarrow> parser" where
  "addOptionBool target sn lname desc req p =
     p\<lparr>options := options p @ [mkBoolArg sn lname desc req target]\<rparr>"

definition addOption ::
  "vtype \<Rightarrow> nat \<Rightarrow> char \<Rightarrow> string \<Rightarrow> string \<Rightarrow> string \<Rightarrow> bool \<Rightarrow> parser \<Rightarrow> parser" where
  "addOption T target sn lname vn desc req p =
     p\<lparr>options := options p @ [mkValueArg T sn lname vn desc req target (vars p target)]\<rparr>"

definition addOperand :: "vtype \<Rightarrow> nat \<Rightarrow> string \<Rightarrow> string \<Rightarrow> bool \<Rightarrow> parser \<Rightarrow> parser" where
  "addOperand T target vn desc req p =
     p\<lparr>operands := operands p @ [mkValueArg T (CHR 0x00) [] vn desc req target (vars p target)]\<rparr>"

definition addOperandSink :: "vtype \<Rightarrow> nat \<Rightarrow> string \<Rightarrow> string \<Rightarrow> bool \<Rightarrow> parser \<Rightarrow> parser" where
  "addOperandSink T target vn desc req p =
     p\<lparr>operands := operands p @ [mkSinkArg T vn desc req target]\<rparr>"

subsection \<open>Parsing one value, marking an argument done\<close>

text \<open>
  A function that may throw returns \<open>Inl\<close> of the exception and the parser as it is at
  the throw, or \<open>Inr\<close> of its result and the parser after it: what was written before an
  exception stays written.
\<close>

type_synonym 'a result = "(failure \<times> parser) + ('a \<times> parser)"

text \<open>\<^verbatim>\<open>Arg::parse\<close>: \<^verbatim>\<open>doParse\<close> of the class. The conversion throws before the
  assignment or the \<^verbatim>\<open>push_back\<close>.\<close>

definition argParse :: "arg \<Rightarrow> string \<Rightarrow> parser \<Rightarrow> (failure \<times> parser) + parser" where
  "argParse a s p =
     (case kind a of
        ValueArg T target d \<Rightarrow>
          (case fromString T s of
             Inl e \<Rightarrow> Inl (e, p)
           | Inr v \<Rightarrow> Inr (p\<lparr>vars := (vars p)(target := v)\<rparr>))
      | SinkArg T target \<Rightarrow>
          (case fromString T s of
             Inl e \<Rightarrow> Inl (e, p)
           | Inr v \<Rightarrow> Inr (p\<lparr>sinks := (sinks p)(target := sinks p target @ [v])\<rparr>))
      | _ \<Rightarrow> Inr p)"

text \<open>\<^verbatim>\<open>Arg::done\<close>: \<^verbatim>\<open>doDone\<close> of the class, then \<^verbatim>\<open>isDone_ = true\<close>.\<close>

definition argDone :: "arg \<Rightarrow> parser \<Rightarrow> arg result" where
  "argDone a p =
     (case kind a of
        SignalArg \<Rightarrow> Inl (Signal (shortName a) (longName a), p)
      | BoolArg target \<Rightarrow> Inr (a\<lparr>isDone := True\<rparr>, p\<lparr>bools := (bools p)(target := True)\<rparr>)
      | _ \<Rightarrow> Inr (a\<lparr>isDone := True\<rparr>, p))"

text \<open>The same two calls through a pointer into \<^verbatim>\<open>options_\<close> or \<^verbatim>\<open>operands_\<close>.\<close>

definition optionDone :: "nat \<Rightarrow> parser \<Rightarrow> (failure \<times> parser) + parser" where
  "optionDone i p =
     (case argDone (options p ! i) p of
        Inl e \<Rightarrow> Inl e
      | Inr (a, p1) \<Rightarrow> Inr (p1\<lparr>options := (options p1)[i := a]\<rparr>))"

definition operandDone :: "nat \<Rightarrow> parser \<Rightarrow> (failure \<times> parser) + parser" where
  "operandDone i p =
     (case argDone (operands p ! i) p of
        Inl e \<Rightarrow> Inl e
      | Inr (a, p1) \<Rightarrow> Inr (p1\<lparr>operands := (operands p1)[i := a]\<rparr>))"

text \<open>\<^verbatim>\<open>option->parse(s); option->done();\<close> and the same for an operand.\<close>

definition optionParseDone :: "nat \<Rightarrow> string \<Rightarrow> parser \<Rightarrow> (failure \<times> parser) + parser" where
  "optionParseDone i s p =
     (case argParse (options p ! i) s p of Inl e \<Rightarrow> Inl e | Inr p1 \<Rightarrow> optionDone i p1)"

definition operandParseDone :: "nat \<Rightarrow> string \<Rightarrow> parser \<Rightarrow> (failure \<times> parser) + parser" where
  "operandParseDone i s p =
     (case argParse (operands p ! i) s p of Inl e \<Rightarrow> Inl e | Inr p1 \<Rightarrow> operandDone i p1)"

subsection \<open>Name lookup\<close>

fun findIndex :: "('a \<Rightarrow> bool) \<Rightarrow> 'a list \<Rightarrow> nat option" where
  "findIndex P [] = None"
| "findIndex P (x # xs) =
     (if P x then Some 0 else (case findIndex P xs of None \<Rightarrow> None | Some i \<Rightarrow> Some (Suc i)))"

text \<open>The two overloads of \<^verbatim>\<open>getOption\<close>; the pointer they return is the index of the
  first option with the name.\<close>

definition getOptionLong :: "parser \<Rightarrow> string \<Rightarrow> failure + nat" where
  "getOptionLong p name =
     (case (if name \<noteq> [] then findIndex (\<lambda>a. longName a = name) (options p) else None) of
        Some i \<Rightarrow> Inr i
      | None \<Rightarrow> Inl (Error (''Unknown option name: '' @ name)))"

definition getOptionShort :: "parser \<Rightarrow> char \<Rightarrow> failure + nat" where
  "getOptionShort p name =
     (case (if name \<noteq> CHR 0x00 then findIndex (\<lambda>a. shortName a = name) (options p) else None) of
        Some i \<Rightarrow> Inr i
      | None \<Rightarrow> Inl (Error (''Unknown option name: '' @ [name])))"

subsection \<open>The parse stages\<close>

definition parseUtility :: "parser \<Rightarrow> string list \<Rightarrow> string list \<times> parser" where
  "parseUtility p it =
     (case it of
        [] \<Rightarrow> (it, p)
      | t # it1 \<Rightarrow> (it1, if utilityName p = [] then p\<lparr>utilityName := t\<rparr> else p))"

definition parseTerminator :: "parser \<Rightarrow> string list \<Rightarrow> string list \<times> parser" where
  "parseTerminator p it =
     (case it of
        [] \<Rightarrow> (it, p)
      | t # it1 \<Rightarrow>
          if isTerminated p \<or> terminator p = [] \<or> t \<noteq> terminator p then (it, p)
          else (it1, p\<lparr>isTerminated := True\<rparr>))"

definition predictLongOption :: "parser \<Rightarrow> string list \<Rightarrow> bool" where
  "predictLongOption p it =
     (case it of
        [] \<Rightarrow> False
      | t # _ \<Rightarrow>
          \<not> isTerminated p \<and> longPrefix p \<noteq> [] \<and> length (longPrefix p) < length t
          \<and> take (length (longPrefix p)) t = longPrefix p)"

definition parseLongOption :: "parser \<Rightarrow> string list \<Rightarrow> (string list) result" where
  "parseLongOption p it =
     (case it of
        [] \<Rightarrow> Inr (it, p)
      | token # it1 \<Rightarrow>
          if \<not> predictLongOption p it then Inr (it, p)
          else
            (let afterPrefix = drop (length (longPrefix p)) token;
                 name = takeWhile (\<lambda>c. c \<noteq> longSeparator p) afterPrefix;
                 hasSep = (length name < length afterPrefix)
             in case getOptionLong p name of
                  Inl e \<Rightarrow> Inl (e, p)
                | Inr i \<Rightarrow>
                    if hasValue (options p ! i) then
                      (if hasSep then
                         (case optionParseDone i (drop (Suc (length name)) afterPrefix) p of
                            Inl e \<Rightarrow> Inl e
                          | Inr p2 \<Rightarrow> Inr (it1, p2))
                       else
                         (case it1 of
                            [] \<Rightarrow> Inl (Error (''Cannot find value for option: '' @ token), p)
                          | v # it2 \<Rightarrow>
                              (case optionParseDone i v p of
                                 Inl e \<Rightarrow> Inl e
                               | Inr p2 \<Rightarrow> Inr (it2, p2))))
                    else if hasSep then Inl (Error (''Unexpected option value: '' @ token), p)
                    else
                      (case optionDone i p of
                         Inl e \<Rightarrow> Inl e
                       | Inr p2 \<Rightarrow> Inr (it1, p2))))"

definition predictShortOption :: "parser \<Rightarrow> string list \<Rightarrow> bool" where
  "predictShortOption p it =
     (case it of
        [] \<Rightarrow> False
      | t # _ \<Rightarrow> \<not> isTerminated p \<and> 1 < length t \<and> hd t = shortPrefix p)"

text \<open>The inner loop of \<^verbatim>\<open>parseShortOptions\<close> over the characters from \<^verbatim>\<open>nameIt\<close> to
  the end of the token.\<close>

fun shortLoop :: "string \<Rightarrow> string \<Rightarrow> parser \<Rightarrow> string list \<Rightarrow> (string list) result" where
  "shortLoop token [] p it = Inr (it, p)"
| "shortLoop token (c # nameIt) p it =
     (case getOptionShort p c of
        Inl e \<Rightarrow> Inl (e, p)
      | Inr i \<Rightarrow>
          if hasValue (options p ! i) then
            (if nameIt \<noteq> [] then
               (case optionParseDone i nameIt p of
                  Inl e \<Rightarrow> Inl e
                | Inr p2 \<Rightarrow> shortLoop token [] p2 it)
             else
               (case it of
                  [] \<Rightarrow> Inl (Error (''Cannot find value for option: '' @ token), p)
                | v # it1 \<Rightarrow>
                    (case optionParseDone i v p of
                       Inl e \<Rightarrow> Inl e
                     | Inr p2 \<Rightarrow> shortLoop token nameIt p2 it1)))
          else
            (case optionDone i p of
               Inl e \<Rightarrow> Inl e
             | Inr p2 \<Rightarrow> shortLoop token nameIt p2 it))"

definition parseShortOptions :: "parser \<Rightarrow> string list \<Rightarrow> (string list) result" where
  "parseShortOptions p it =
     (case it of
        [] \<Rightarrow> Inr (it, p)
      | token # it1 \<Rightarrow>
          if \<not> predictShortOption p it then Inr (it, p)
          else shortLoop token (tl token) p it1)"

text \<open>No stage moves the iterator backwards; the loops below terminate by that.\<close>

lemma parseTerminator_length:
  "parseTerminator p it = (it1, p1) \<Longrightarrow> length it1 \<le> length it"
  by (auto simp: parseTerminator_def split: list.splits if_splits)

lemma parseLongOption_length:
  "parseLongOption p it = Inr (it1, p1) \<Longrightarrow> length it1 \<le> length it"
  by (auto simp: parseLongOption_def Let_def split: list.splits if_splits sum.splits)

lemma shortLoop_length:
  "shortLoop token nameIt p it = Inr (it1, p1) \<Longrightarrow> length it1 \<le> length it"
proof (induction token nameIt p it rule: shortLoop.induct)
  case (1 token p it)
  then show ?case by simp
next
  case (2 token c nameIt p it)
  then show ?case
    by (fastforce split: sum.splits if_splits list.splits)
qed

lemma parseShortOptions_length:
  "parseShortOptions p it = Inr (it1, p1) \<Longrightarrow> length it1 \<le> length it"
  by (auto simp: parseShortOptions_def split: list.splits if_splits dest: shortLoop_length)

text \<open>
  The loop of \<^verbatim>\<open>parseOptions\<close>. The comparison \<^verbatim>\<open>it != old\<close> of two iterators into
  the same vector is the comparison of the numbers of tokens left.
\<close>

function parseOptions :: "parser \<Rightarrow> string list \<Rightarrow> (string list) result" where
  "parseOptions p it =
     (case parseTerminator p it of
        (it1, p1) \<Rightarrow>
          if length it1 \<noteq> length it then Inr (it1, p1)
          else
            (case parseLongOption p1 it1 of
               Inl e \<Rightarrow> Inl e
             | Inr (it2, p2) \<Rightarrow>
                 if length it2 \<noteq> length it then parseOptions p2 it2
                 else
                   (case parseShortOptions p2 it2 of
                      Inl e \<Rightarrow> Inl e
                    | Inr (it3, p3) \<Rightarrow>
                        if length it3 \<noteq> length it then parseOptions p3 it3
                        else Inr (it3, p3))))"
  by pat_completeness auto
termination
proof (relation "measure (\<lambda>(p, it). length it)")
  show "wf (measure (\<lambda>(p, it). length it))" by simp
next
  fix p :: parser and it x it1 p1 x2 x3 it2 p2
  assume "(it1, p1) = parseTerminator p it" "\<not> length it1 \<noteq> length it"
    "parseLongOption p1 it1 = Inr x2" "(it2, p2) = x2" "length it2 \<noteq> length it"
  then have "length it2 \<le> length it1" "length it1 = length it"
    using parseLongOption_length [of p1 it1 it2 p2] by auto
  with \<open>length it2 \<noteq> length it\<close> show "((p2, it2), (p, it)) \<in> measure (\<lambda>(p, it). length it)"
    by simp
next
  fix p :: parser and it x it1 p1 x2 it2 p2 x3 it3 p3
  assume "(it1, p1) = parseTerminator p it" "\<not> length it1 \<noteq> length it"
    "parseLongOption p1 it1 = Inr x2" "(it2, p2) = x2" "\<not> length it2 \<noteq> length it"
    "parseShortOptions p2 it2 = Inr x3" "(it3, p3) = x3" "length it3 \<noteq> length it"
  then have "length it3 \<le> length it2" "length it2 = length it"
    using parseShortOptions_length [of p2 it2 it3 p3] by auto
  with \<open>length it3 \<noteq> length it\<close> show "((p3, it3), (p, it)) \<in> measure (\<lambda>(p, it). length it)"
    by simp
qed

declare parseOptions.simps [simp del]

text \<open>The loop of \<^verbatim>\<open>parseOperandContent\<close> for the operand at index \<open>i\<close> of
  \<^verbatim>\<open>operands_\<close>.\<close>

function parseOperandContent :: "parser \<Rightarrow> string list \<Rightarrow> nat \<Rightarrow> (string list) result" where
  "parseOperandContent p it i =
     (case parseTerminator p it of
        (it1, p1) \<Rightarrow>
          (case it1 of
             [] \<Rightarrow> Inr (it1, p1)
           | t # it2 \<Rightarrow>
               if predictLongOption p1 it1 \<or> predictShortOption p1 it1
               then Inl (Error (''Unexpected option: '' @ t), p1)
               else
                 (case operandParseDone i t p1 of
                    Inl e \<Rightarrow> Inl e
                  | Inr p2 \<Rightarrow>
                      if \<not> isSink (operands p2 ! i) then Inr (it2, p2)
                      else parseOperandContent p2 it2 i)))"
  by pat_completeness auto
termination
proof (relation "measure (\<lambda>(p, it, i). length it)")
  show "wf (measure (\<lambda>(p, it, i). length it))" by simp
next
  fix p :: parser and it i x it1 p1 t it2 p2
  assume "(it1, p1) = parseTerminator p it" "it1 = t # it2"
  then have "length (t # it2) \<le> length it"
    using parseTerminator_length [of p it it1 p1] by simp
  then show "((p2, it2, i), (p, it, i)) \<in> measure (\<lambda>(p, it, i). length it)"
    by simp
qed

declare parseOperandContent.simps [simp del]

text \<open>\<^verbatim>\<open>parseOperands\<close>: the range-based loop over \<^verbatim>\<open>operands_\<close>, by index.\<close>

fun parseOperandsLoop :: "nat list \<Rightarrow> parser \<Rightarrow> string list \<Rightarrow> (string list) result" where
  "parseOperandsLoop [] p it = Inr (it, p)"
| "parseOperandsLoop (i # is) p it =
     (case parseOperandContent p it i of
        Inl e \<Rightarrow> Inl e
      | Inr (it1, p1) \<Rightarrow> parseOperandsLoop is p1 it1)"

definition parseOperands :: "parser \<Rightarrow> string list \<Rightarrow> (string list) result" where
  "parseOperands p it = parseOperandsLoop [0 ..< length (operands p)] p it"

definition checkEnd :: "parser \<Rightarrow> string list \<Rightarrow> failure option" where
  "checkEnd p it = (case it of [] \<Rightarrow> None | t # _ \<Rightarrow> Some (Error (''Unexpected argument: '' @ t)))"

definition expandName :: "parser \<Rightarrow> arg \<Rightarrow> string" where
  "expandName p a =
     (if shortName a \<noteq> CHR 0x00 then [shortPrefix p, shortName a]
      else if longName a \<noteq> [] then longPrefix p @ longName a
      else valueName a)"

fun checkRequired :: "parser \<Rightarrow> arg list \<Rightarrow> failure option" where
  "checkRequired p [] = None"
| "checkRequired p (a # as) =
     (if isRequired a \<and> \<not> isDone a
      then Some (Error (''Cannot find required argument: '' @ expandName p a))
      else checkRequired p as)"

text \<open>\<^verbatim>\<open>parseAll\<close>, and \<^verbatim>\<open>parse\<close> on the vector of tokens.\<close>

definition parseAll :: "parser \<Rightarrow> string list \<Rightarrow> (failure \<times> parser) + parser" where
  "parseAll p it =
     (case parseUtility p it of
        (it1, p1) \<Rightarrow>
          (case parseOptions p1 it1 of
             Inl e \<Rightarrow> Inl e
           | Inr (it2, p2) \<Rightarrow>
               (case parseOperands p2 it2 of
                  Inl e \<Rightarrow> Inl e
                | Inr (it3, p3) \<Rightarrow>
                    (case parseTerminator p3 it3 of
                       (it4, p4) \<Rightarrow>
                         (case checkEnd p4 it4 of
                            Some e \<Rightarrow> Inl (e, p4)
                          | None \<Rightarrow>
                              (case checkRequired p4 (options p4) of
                                 Some e \<Rightarrow> Inl (e, p4)
                               | None \<Rightarrow>
                                   (case checkRequired p4 (operands p4) of
                                      Some e \<Rightarrow> Inl (e, p4)
                                    | None \<Rightarrow> Inr p4)))))))"

definition parse :: "parser \<Rightarrow> string list \<Rightarrow> (failure \<times> parser) + parser" where
  "parse p argv = parseAll p argv"

subsection \<open>One iteration of each loop\<close>

text \<open>
  The body of the loop of \<^verbatim>\<open>parseOptions\<close> after the test for the terminator: the
  long stage, then the short stage when the long stage has not moved the iterator. And
  the body of the loop of \<^verbatim>\<open>parseOperandContent\<close> on the token \<open>t\<close> after that test.
\<close>

definition optionStep :: "parser \<Rightarrow> string list \<Rightarrow> (string list) result" where
  "optionStep p it =
     (case parseLongOption p it of
        Inl e \<Rightarrow> Inl e
      | Inr (it2, p2) \<Rightarrow>
          if length it2 \<noteq> length it then Inr (it2, p2) else parseShortOptions p2 it2)"

definition operandStep :: "parser \<Rightarrow> string \<Rightarrow> nat \<Rightarrow> (failure \<times> parser) + parser" where
  "operandStep p t i =
     (if predictLongOption p [t] \<or> predictShortOption p [t]
      then Inl (Error (''Unexpected option: '' @ t), p)
      else operandParseDone i t p)"

subsection \<open>The help writer\<close>

text \<open>The stream \<^verbatim>\<open>out\<close> is the string of the characters written to it.\<close>

definition isWordChar :: "char \<Rightarrow> bool" where
  "isWordChar c = (c \<noteq> CHR '' '' \<and> c \<noteq> CHR 0x0A)"

function tokenize :: "string \<Rightarrow> string list" where
  "tokenize [] = []"
| "tokenize (c # cs) =
     (if c = CHR '' '' then tokenize cs
      else if c = CHR 0x0A then [CHR 0x0A] # tokenize cs
      else (c # takeWhile isWordChar cs) # tokenize (dropWhile isWordChar cs))"
  by pat_completeness auto
termination
  by (relation "measure length") (auto simp: length_dropWhile_le less_Suc_eq_le)

text \<open>The loop of \<^verbatim>\<open>writeWrapped\<close>, from a position and a number of pending spaces.\<close>

fun wrapLoop :: "nat \<Rightarrow> nat \<Rightarrow> nat \<Rightarrow> nat \<Rightarrow> string list \<Rightarrow> string" where
  "wrapLoop width hangingIndent pos spaces [] = []"
| "wrapLoop width hangingIndent pos spaces (token # tokens) =
     (let isNewline = (token = [CHR 0x0A]);
          isOverflow = (width < pos + spaces + length token)
      in if isNewline \<or> (isOverflow \<and> hangingIndent < pos) then
           CHR 0x0A #
             (if isNewline then wrapLoop width hangingIndent 0 hangingIndent tokens
              else replicate hangingIndent CHR '' '' @ token @
                   wrapLoop width hangingIndent (0 + hangingIndent + length token) 1 tokens)
         else replicate spaces CHR '' '' @ token @
              wrapLoop width hangingIndent (pos + spaces + length token) 1 tokens)"

definition writeWrapped :: "parser \<Rightarrow> string list \<Rightarrow> nat \<Rightarrow> nat \<Rightarrow> string" where
  "writeWrapped p tokens initialPos hangingIndent =
     wrapLoop (helpWidth p) hangingIndent initialPos 0 tokens"

definition writeParagraph :: "parser \<Rightarrow> string \<Rightarrow> string" where
  "writeParagraph p paragraph =
     (if paragraph = [] then []
      else writeWrapped p (tokenize paragraph) 0 0 @ [CHR 0x0A, CHR 0x0A])"

definition usageToken :: "parser \<Rightarrow> arg \<Rightarrow> string" where
  "usageToken p a =
     (let t1 = (if shortName a \<noteq> CHR 0x00 then [shortPrefix p, shortName a]
                else if longName a \<noteq> [] then longPrefix p @ longName a
                else []);
          t2 = (if hasValue a then (if t1 \<noteq> [] then t1 @ '' '' else t1) @ valueName a else t1);
          t3 = (if \<not> isRequired a then ''['' @ t2 @ '']'' else t2)
      in if isSink a then t3 @ ''...'' else t3)"

definition pushUsageTokens :: "parser \<Rightarrow> string list \<Rightarrow> arg list \<Rightarrow> string list" where
  "pushUsageTokens p tokens args = tokens @ map (usageToken p) args"

definition writeUsage :: "parser \<Rightarrow> string" where
  "writeUsage p =
     (if usageTitle p = [] then []
      else
        (let t0 = (if utilityName p \<noteq> [] then [utilityName p] else []);
             t1 = (if optionsUsage p \<noteq> [] then t0 @ [optionsUsage p]
                   else pushUsageTokens p t0 (options p));
             t2 = (if operandsUsage p \<noteq> [] then t1 @ [operandsUsage p]
                   else pushUsageTokens p t1 (operands p))
         in usageTitle p @ [CHR 0x0A] @ replicate (helpIndent p) CHR '' '' @
            writeWrapped p t2 (helpIndent p) (helpIndent p * 2) @ [CHR 0x0A, CHR 0x0A]))"

definition hasAnyShortName :: "arg list \<Rightarrow> bool" where
  "hasAnyShortName args = (\<exists>a \<in> set args. shortName a \<noteq> CHR 0x00)"

text \<open>One \<^verbatim>\<open>Entry\<close> of the glossary: its \<^verbatim>\<open>term\<close> and its \<^verbatim>\<open>description\<close>, a vector of tokens.\<close>

record entry =
  entryTerm :: string
  entryDescription :: "string list"

definition glossaryEntry :: "parser \<Rightarrow> bool \<Rightarrow> arg \<Rightarrow> entry" where
  "glossaryEntry p hasAnyShort a =
     (let d0 = tokenize (description a);
          t1 = (if hasAnyShort
                then (if shortName a = CHR 0x00 then ''  '' else [shortPrefix p, shortName a])
                else []);
          t2 = (if longName a \<noteq> []
                then t1 @ (if hasAnyShort then (if shortName a \<noteq> CHR 0x00 then '', '' else ''  '') else [])
                     @ longPrefix p @ longName a
                else t1);
          t3 = (if hasValue a then (if t2 \<noteq> [] then t2 @ '' '' else t2) @ valueName a else t2);
          d1 = (if defaultIntro p \<noteq> []
                then (let v = getDefaultValue a
                      in if v \<noteq> [] then d0 @ [''('' @ defaultIntro p @ v @ '')''] else d0)
                else d0)
      in \<lparr>entryTerm = t3, entryDescription = d1\<rparr>)"

definition writeGlossary :: "parser \<Rightarrow> string \<Rightarrow> arg list \<Rightarrow> string" where
  "writeGlossary p title args =
     (if title = [] \<or> args = [] then []
      else
        (let entries = map (glossaryEntry p (hasAnyShortName args)) args;
             maxTermSize = foldl (\<lambda>m e. if m < length (entryTerm e) then length (entryTerm e) else m) 0 entries;
             tab = helpIndent p + maxTermSize + helpIndent p
         in title @ [CHR 0x0A] @
            concat (map (\<lambda>e. replicate (helpIndent p) CHR '' '' @ entryTerm e @
                              replicate (tab - helpIndent p - length (entryTerm e)) CHR '' '' @
                              writeWrapped p (entryDescription e) tab tab @ [CHR 0x0A]) entries)
            @ [CHR 0x0A]))"

definition writeHelp :: "parser \<Rightarrow> string" where
  "writeHelp p =
     writeParagraph p (helpProlog p) @ writeUsage p @
     writeGlossary p (optionsTitle p) (options p) @
     writeGlossary p (operandsTitle p) (operands p) @
     writeParagraph p (helpEpilog p)"

subsection \<open>Comparing the parser before and after a call\<close>

text \<open>The parser a call leaves behind, whether it returns or throws.\<close>

definition finalState :: "(failure \<times> parser) + parser \<Rightarrow> parser" where
  "finalState r = (case r of Inl (e, q) \<Rightarrow> q | Inr q \<Rightarrow> q)"

text \<open>The same for a stage that returns the iterator.\<close>

definition stateOf :: "'a result \<Rightarrow> parser" where
  "stateOf r = (case r of Inl (e, q) \<Rightarrow> q | Inr (x, q) \<Rightarrow> q)"

text \<open>
  A relation between an earlier and a later parser is \<open>stable\<close> when it is reflexive and
  transitive and holds across each assignment the parse stages make: the utility name,
  the terminated flag, a bound variable, a \<^verbatim>\<open>push_back\<close> on a sink, a flag set to
  true, and \<^verbatim>\<open>isDone_\<close> of an option or an operand.
\<close>

definition stable :: "(parser \<Rightarrow> parser \<Rightarrow> bool) \<Rightarrow> bool" where
  "stable R =
     ((\<forall>p. R p p) \<and> (\<forall>p q r. R p q \<longrightarrow> R q r \<longrightarrow> R p r)
      \<and> (\<forall>p t. R p (p\<lparr>utilityName := t\<rparr>))
      \<and> (\<forall>p. R p (p\<lparr>isTerminated := True\<rparr>))
      \<and> (\<forall>p a v. R p (p\<lparr>vars := (vars p)(a := v)\<rparr>))
      \<and> (\<forall>p a v. R p (p\<lparr>sinks := (sinks p)(a := sinks p a @ [v])\<rparr>))
      \<and> (\<forall>p a. R p (p\<lparr>bools := (bools p)(a := True)\<rparr>))
      \<and> (\<forall>p i. R p (p\<lparr>options := (options p)[i := (options p ! i)\<lparr>isDone := True\<rparr>]\<rparr>))
      \<and> (\<forall>p i. R p (p\<lparr>operands := (operands p)[i := (operands p ! i)\<lparr>isDone := True\<rparr>]\<rparr>)))"

text \<open>Every argument still has its class, its target and its \<^verbatim>\<open>default_\<close>.\<close>

definition sameKinds :: "parser \<Rightarrow> parser \<Rightarrow> bool" where
  "sameKinds p q =
     (map kind (options q) = map kind (options p) \<and> map kind (operands q) = map kind (operands p))"

subsection \<open>An example declaration\<close>

text \<open>
  A parser as a program would declare it: a signal, a required flag, a string and an
  integer option with short and long names, an optional operand and a required sink of
  strings. The variable at address 0 of \<open>vars\<close> is an \<^verbatim>\<open>int\<close> that holds 1, the
  others are strings that hold \<^verbatim>\<open>a\<close>.
\<close>

definition exampleParser :: parser where
  "exampleParser =
     addOperandSink StrT 0 ''FILE'' ''Input files'' True
       (addOperand StrT 1 ''OUT'' ''Output file'' False
       (addOption (IntT True W32) 0 CHR ''i'' ''int'' ''N'' ''A number'' False
       (addOption StrT 2 CHR ''a'' ''aaa'' ''A'' ''A text'' False
       (addOptionBool 0 CHR ''b'' ''bool'' ''A flag'' True
       (addSignal CHR ''h'' ''help'' ''Show help''
       (newParser [] [] (\<lambda>_. False) (\<lambda>a. if a = 0 then IntV 1 else StrV ''a'') (\<lambda>_. [])))))))"

lemmas example_defs =
  exampleParser_def newParser_def addSignal_def addOptionBool_def addOption_def addOperand_def
  addOperandSink_def mkSignalArg_def mkBoolArg_def mkValueArg_def mkSinkArg_def

text \<open>A parser with a one-character utility name and one flag with a long name, at
  the help width 21.\<close>

definition usageExample :: parser where
  "usageExample =
     (addOptionBool 0 (CHR 0x00) ''averyveryverylongoption'' ''A flag'' False
        (newParser [] [] (\<lambda>_. False) (\<lambda>_. IntV 0) (\<lambda>_. [])))
     \<lparr>utilityName := ''a'', helpWidth := 21\<rparr>"

section \<open>Properties of the value codec\<close>

subsection \<open>Decimal text of an integer is read back by the scan\<close>

lemma digitVal_digitChar: "d < 10 \<Longrightarrow> digitVal (digitChar d) = d"
  by (simp add: digitVal_def digitChar_def)

lemma digitChar_props:
  assumes "d < 10"
  shows "isDigitOf 10 (digitChar d)" "\<not> isspace (digitChar d)"
    "digitChar d \<noteq> CHR ''-''" "digitChar d \<noteq> CHR ''+''"
    "digitChar d \<noteq> CHR ''x''" "digitChar d \<noteq> CHR ''X''"
proof -
  have v: "digitVal (digitChar d) = d" using assms by (rule digitVal_digitChar)
  show "isDigitOf 10 (digitChar d)" using assms v by (simp add: isDigitOf_def)
  have o: "(of_char (digitChar d) :: nat) = 48 + d"
    using assms by (simp add: digitChar_def)
  show "\<not> isspace (digitChar d)"
  proof
    assume "isspace (digitChar d)"
    then have "digitChar d = CHR '' '' \<or> (of_char (digitChar d) :: nat) \<le> 13"
      by (auto simp: isspace_def)
    then show False
    proof
      assume "digitChar d = CHR '' ''"
      then have "(of_char (digitChar d) :: nat) = of_char (CHR '' '')" by simp
      then show False using o by simp
    next
      assume "(of_char (digitChar d) :: nat) \<le> 13"
      then show False using o by simp
    qed
  qed
  have ne: "\<And>c. (of_char c :: nat) < 48 \<or> 57 < (of_char c :: nat) \<Longrightarrow> digitChar d \<noteq> c"
    using o assms by auto
  show "digitChar d \<noteq> CHR ''-''" by (rule ne) simp
  show "digitChar d \<noteq> CHR ''+''" by (rule ne) simp
  show "digitChar d \<noteq> CHR ''x''" by (rule ne) simp
  show "digitChar d \<noteq> CHR ''X''" by (rule ne) simp
qed

lemma decDigits_ne: "decDigits n \<noteq> []"
  by (subst decDigits.simps) simp

lemma decDigits_set:
  "c \<in> set (decDigits n) \<Longrightarrow> \<exists>d < 10. c = digitChar d"
proof (induction n rule: decDigits.induct)
  case (1 n)
  show ?case
  proof (cases "n < 10")
    case True
    with "1.prems" show ?thesis by (subst (asm) decDigits.simps) auto
  next
    case False
    from "1.prems" have "c \<in> set (decDigits (n div 10)) \<or> c = digitChar (n mod 10)"
      using False by (subst (asm) decDigits.simps) auto
    then show ?thesis
    proof
      assume "c \<in> set (decDigits (n div 10))"
      with "1.IH" False show ?thesis by simp
    next
      assume "c = digitChar (n mod 10)"
      moreover have "n mod 10 < 10" by simp
      ultimately show ?thesis by blast
    qed
  qed
qed

lemma digitsValue_snoc: "digitsValue b (ds @ [c]) = digitsValue b ds * b + digitVal c"
  by (simp add: digitsValue_def)

lemma digitsValue_decDigits: "digitsValue 10 (decDigits n) = n"
proof (induction n rule: decDigits.induct)
  case (1 n)
  show ?case
  proof (cases "n < 10")
    case True
    then show ?thesis
      by (subst decDigits.simps) (simp add: digitsValue_def digitVal_digitChar)
  next
    case False
    have "digitsValue 10 (decDigits n) =
          digitsValue 10 (decDigits (n div 10)) * 10 + digitVal (digitChar (n mod 10))"
      using False by (subst decDigits.simps) (simp add: digitsValue_snoc)
    also have "\<dots> = (n div 10) * 10 + n mod 10"
      using "1.IH" False by (simp add: digitVal_digitChar)
    finally show ?thesis by simp
  qed
qed

lemma takeWhile_all: "\<forall>c \<in> set xs. P c \<Longrightarrow> takeWhile P xs = xs"
  by (induction xs) auto

lemma strtoScan_decDigits:
  "strtoScan (decDigits n) 10 = Some (False, n, length (decDigits n))"
proof -
  obtain c cs where cs: "decDigits n = c # cs"
    using decDigits_ne [of n] by (cases "decDigits n") auto
  then have "c \<in> set (decDigits n)" by simp
  then obtain d where d: "d < 10" "c = digitChar d" using decDigits_set by blast
  have all: "\<forall>x \<in> set (decDigits n). isDigitOf 10 x"
    using decDigits_set digitChar_props(1) by blast
  have ws: "takeWhile isspace (decDigits n) = []"
    using cs d digitChar_props(2) by simp
  have sg: "readSign (decDigits n) = (False, 0)"
    using cs d digitChar_props(3,4) by (simp add: readSign_def)
  have px: "hexPrefix 10 (decDigits n) = 0"
    by (simp add: hexPrefix_def split: list.splits)
  have tk: "takeWhile (isDigitOf 10) (decDigits n) = decDigits n"
    using all by (rule takeWhile_all)
  show ?thesis
    by (simp add: strtoScan_def ws sg px tk decDigits_ne digitsValue_decDigits)
qed

lemma strtoScan_minus_decDigits:
  "strtoScan (CHR ''-'' # decDigits n) 10 = Some (True, n, Suc (length (decDigits n)))"
proof -
  have all: "\<forall>x \<in> set (decDigits n). isDigitOf 10 x"
    using decDigits_set digitChar_props(1) by blast
  have ws: "\<not> isspace CHR ''-''"
    by (simp add: isspace_def)
  have sg: "readSign (CHR ''-'' # decDigits n) = (True, 1)"
    by (simp add: readSign_def)
  have px: "hexPrefix 10 (decDigits n) = 0"
    by (simp add: hexPrefix_def split: list.splits)
  have tk: "takeWhile (isDigitOf 10) (decDigits n) = decDigits n"
    using all by (rule takeWhile_all)
  show ?thesis
    by (simp add: strtoScan_def ws sg px tk decDigits_ne digitsValue_decDigits)
qed

lemma baseOf_showInt: "baseOf (showInt i) = 10"
proof -
  have "\<And>n c. c \<in> set (decDigits n) \<Longrightarrow> c \<noteq> CHR ''X'' \<and> c \<noteq> CHR ''x''"
    by (metis decDigits_set digitChar_props(5,6))
  then show ?thesis by (auto simp: baseOf_def showInt_def)
qed

lemma minus_notin_decDigits: "CHR ''-'' \<notin> set (decDigits n)"
  by (metis decDigits_set digitChar_props(3))

lemma limits_64: "- (2 ^ 63) \<le> limitMin sg w" "limitMax True w \<le> 2 ^ 63 - 1" "limitMax False w \<le> 2 ^ 64 - 1"
  "limitMin sg w \<le> 0"
  by (cases w; simp add: limitMin_def limitMax_def)+

lemma fromStringInt_showInt:
  "fromStringInt sg w (showInt i) =
     (if limitMin sg w \<le> i \<and> i \<le> limitMax sg w then Inr i
      else Inl (Error ((if \<not> sg \<and> i < 0 then ''Cannot parse unsigned integer: ''
                        else ''Cannot parse integer: '') @ showInt i)))"
proof (cases "i < 0")
  case neg: True
  then have s: "showInt i = CHR ''-'' # decDigits (nat (- i))" by (simp add: showInt_def)
  show ?thesis
  proof (cases sg)
    case True
    have m: "int (nat (- i)) = - i" using neg by simp
    have "stoll (showInt i) 10 = (if i < - (2 ^ 63) then Inl out_of_range else Inr (i, length (showInt i)))"
      using neg unfolding s stoll_def strtoScan_minus_decDigits option.case prod.case Let_def m
      by simp
    then show ?thesis
      using neg True limits_64(1) [of True w] baseOf_showInt [of i]
      by (auto simp: fromStringInt_def toLongest_def)
  next
    case False
    then show ?thesis using neg s
      by (simp add: fromStringInt_def toLongest_def limitMin_def)
  qed
next
  case pos: False
  then have s: "showInt i = decDigits (nat i)" by (simp add: showInt_def)
  show ?thesis
  proof (cases sg)
    case True
    have m: "int (nat i) = i" using pos by simp
    have "stoll (showInt i) 10 = (if 2 ^ 63 - 1 < i then Inl out_of_range else Inr (i, length (showInt i)))"
      using pos unfolding s stoll_def strtoScan_decDigits option.case prod.case Let_def m
      by simp
    then show ?thesis
      using pos True limits_64(2) [of w] limits_64(4) [of True w] baseOf_showInt [of i]
      by (auto simp: fromStringInt_def toLongest_def)
  next
    case False
    have m: "int (nat i) = i" using pos by simp
    have "stoull (showInt i) 10 = (if 2 ^ 64 - 1 < i then Inl out_of_range else Inr (i, length (showInt i)))"
      using pos unfolding s stoull_def strtoScan_decDigits option.case prod.case Let_def m
      by simp
    then show ?thesis
      using pos False limits_64(3) [of w] limits_64(4) [of False w] baseOf_showInt [of i]
        minus_notin_decDigits [of "nat i"] s
      by (auto simp: fromStringInt_def toLongest_def)
  qed
qed

subsection \<open>Tokens of digits, with and without the hexadecimal prefix\<close>






lemmas codec_defs =
  fromStringInt_def toLongest_def baseOf_def stoll_def stoull_def strtoScan_def isspace_def
  readSign_def hexPrefix_def isDigitOf_def digitVal_def digitsValue_def limitMin_def limitMax_def

lemmas show_defs = showInt_def decDigits.simps digitChar_def char_of_eq_iff

subsection \<open>Floating point numbers that are small integers\<close>

text \<open>An integer of at most six digits is written in the fixed notation with no
  fraction, read back as the same integer and representable in both formats.\<close>

lemma natLog_bounds:
  "2 \<le> b \<Longrightarrow> 0 < n \<Longrightarrow> b ^ natLog b n \<le> n \<and> n < b ^ Suc (natLog b n)"
proof (induction b n rule: natLog.induct)
  case (1 b n)
  show ?case
  proof (cases "n < b")
    case True
    then show ?thesis using "1.prems" by (subst (1 2) natLog.simps) simp
  next
    case False
    then have d: "0 < n div b" using "1.prems" by (simp add: div_greater_zero_iff)
    have ih: "b ^ natLog b (n div b) \<le> n div b \<and> n div b < b ^ Suc (natLog b (n div b))"
      using "1.IH" "1.prems" False d by simp
    have s: "natLog b n = Suc (natLog b (n div b))"
      using "1.prems" False by (subst natLog.simps) simp
    have lo: "b * b ^ natLog b (n div b) \<le> n"
    proof -
      have "b * b ^ natLog b (n div b) \<le> b * (n div b)" using ih by simp
      also have "\<dots> \<le> n" by simp
      finally show ?thesis .
    qed
    have hi: "n < b * b ^ Suc (natLog b (n div b))"
    proof -
      have "Suc (n div b) \<le> b ^ Suc (natLog b (n div b))" using ih by simp
      then have "b * Suc (n div b) \<le> b * b ^ Suc (natLog b (n div b))"
        by (rule mult_le_mono2)
      moreover have "n < b * Suc (n div b)"
        using dividend_less_times_div [of b n] "1.prems" by simp
      ultimately show ?thesis by simp
    qed
    show ?thesis using s lo hi by simp
  qed
qed

lemma natLog_less: "2 \<le> b \<Longrightarrow> 0 < n \<Longrightarrow> n < b ^ k \<Longrightarrow> natLog b n < k"
proof -
  assume b: "2 \<le> b" and n: "0 < n" and k: "n < b ^ k"
  have "b ^ natLog b n < b ^ k" using natLog_bounds [OF b n] k by simp
  then show ?thesis using b by (simp add: power_less_imp_less_exp)
qed

lemma length_decDigits: "length (decDigits n) = Suc (natLog 10 n)"
proof (induction n rule: decDigits.induct)
  case (1 n)
  show ?case
  proof (cases "n < 10")
    case True
    then show ?thesis by (subst decDigits.simps, subst natLog.simps) simp
  next
    case False
    then show ?thesis using "1.IH" by (subst decDigits.simps, subst natLog.simps) simp
  qed
qed

lemma decDigits_times: "0 < n \<Longrightarrow> decDigits (n * 10 ^ k) = decDigits n @ replicate k (CHR ''0'')"
proof (induction k)
  case 0
  then show ?case by simp
next
  case (Suc k)
  have z: "digitChar 0 = CHR ''0''" by (simp add: digitChar_def char_of_eq_iff)
  have "decDigits (n * 10 ^ k * 10) = decDigits (n * 10 ^ k) @ [digitChar 0]"
    using Suc.prems by (subst decDigits.simps) simp
  also have "\<dots> = decDigits n @ replicate (Suc k) (CHR ''0'')"
    using Suc z by (simp add: replicate_append_same)
  finally show ?case by (simp add: ac_simps)
qed

lemma roundHalfEven_of_int: "roundHalfEven (of_int z) = z"
  by (simp add: roundHalfEven_def)

lemma withFraction_zeros: "withFraction ip (replicate k (CHR ''0'')) = ip"
  by (simp add: withFraction_def)

lemma showMagnitude_nat:
  assumes "0 < n" "n < 10 ^ 6"
  shows "showMagnitude (of_nat n) = decDigits n"
proof -
  define L where "L = natLog 10 n"
  have L: "L < 6" using natLog_less [of 10 n 6] assms by (simp add: L_def)
  have b: "10 ^ L \<le> n" "n < 10 ^ Suc L" using natLog_bounds [of 10 n] assms(1) by (simp_all add: L_def)
  have fl: "floorLog 10 (of_nat n) = int L"
    using assms(1) by (simp add: floorLog_def L_def)
  have pw: "powInt 10 (5 - int L) = 10 ^ (5 - L)"
    using L by (simp add: powInt_def nat_diff_distrib')
  have sc: "(of_nat n :: rat) * 10 ^ (5 - L) = of_int (int (n * 10 ^ (5 - L)))" by simp
  have m0: "roundHalfEven (of_nat n * powInt 10 (5 - int L)) = int (n * 10 ^ (5 - L))"
    unfolding pw sc by (rule roundHalfEven_of_int)
  have "n * 10 ^ (5 - L) < 10 ^ Suc L * 10 ^ (5 - L)" using b(2) by simp
  also have "\<dots> = 10 ^ 6" using L by (simp flip: power_add)
  finally have lt: "n * 10 ^ (5 - L) < 10 ^ 6" .
  then have ne: "int (n * 10 ^ (5 - L)) \<noteq> 10 ^ 6"
    by (metis nat_int nat_less_le nat_numeral nat_power_eq of_nat_0_le_iff zero_le_numeral)
  have ds: "decDigits (n * 10 ^ (5 - L)) = decDigits n @ replicate (5 - L) (CHR ''0'')"
    using assms(1) by (rule decDigits_times)
  have len: "length (decDigits n) = Suc L" by (simp add: length_decDigits L_def)
  have nn: "nat (int n * 10 ^ (5 - L)) = n * 10 ^ (5 - L)"
    by (simp add: nat_mult_distrib nat_power_eq)
  show ?thesis
    unfolding showMagnitude_def Let_def fl m0 using ne L ds len nn by (simp add: withFraction_zeros)
qed

lemma showFloat_of_int:
  assumes "\<bar>i\<bar> < 10 ^ 6"
  shows "showFloat (of_int i) = showInt i"
proof (cases "i = 0")
  case True
  have "digitChar 0 = CHR ''0''" by (simp add: digitChar_def char_of_eq_iff)
  with True show ?thesis by (simp add: showFloat_def showInt_def decDigits.simps)
next
  case False
  define n where "n = nat \<bar>i\<bar>"
  have n: "0 < n" "n < 10 ^ 6" using False assms by (simp_all add: n_def nat_less_iff)
  have a: "\<bar>of_int i :: rat\<bar> = of_nat n" by (simp add: n_def)
  have m: "showMagnitude \<bar>of_int i\<bar> = decDigits n" unfolding a using n by (rule showMagnitude_nat)
  show ?thesis
  proof (cases "i < 0")
    case True
    then have "nat (- i) = n" by (simp add: n_def)
    then show ?thesis using True False m by (simp add: showFloat_def showInt_def)
  next
    case ge: False
    then have "nat i = n" by (simp add: n_def)
    then show ?thesis using ge False m by (simp add: showFloat_def showInt_def)
  qed
qed

lemma scanFloat_decDigits:
  "scanFloat (decDigits n) = Some (of_nat n, [])"
  "scanFloat (CHR ''-'' # decDigits n) = Some (- of_nat n, [])"
proof -
  obtain c cs where cs: "decDigits n = c # cs"
    using decDigits_ne [of n] by (cases "decDigits n") auto
  then have "c \<in> set (decDigits n)" by simp
  then obtain d where d: "d < 10" "c = digitChar d" using decDigits_set by blast
  have all: "\<forall>x \<in> set (decDigits n). isDigitOf 10 x"
    using decDigits_set digitChar_props(1) by blast
  have tw: "takeWhile (isDigitOf 10) (decDigits n) = decDigits n"
    using all by (rule takeWhile_all)
  have c: "\<not> isspace c" "c \<noteq> CHR ''-''" "c \<noteq> CHR ''+''"
    using d digitChar_props by simp_all
  have dw: "dropWhile isspace (decDigits n) = decDigits n" using cs c by simp
  have rs: "readSign (decDigits n) = (False, 0)" using cs c by (simp add: readSign_def)
  have ne: "decDigits n \<noteq> []" by (rule decDigits_ne)
  show "scanFloat (decDigits n) = Some (of_nat n, [])"
    using ne by (simp add: scanFloat_def Let_def dw rs tw digitsValue_decDigits powInt_def)
  have dw2: "dropWhile isspace (CHR ''-'' # decDigits n) = CHR ''-'' # decDigits n"
    by (simp add: isspace_def)
  have rs2: "readSign (CHR ''-'' # decDigits n) = (True, 1)" by (simp add: readSign_def)
  show "scanFloat (CHR ''-'' # decDigits n) = Some (- of_nat n, [])"
    using ne by (simp add: scanFloat_def Let_def isspace_def readSign_def tw digitsValue_decDigits powInt_def)
qed

lemma nearest_nat:
  assumes "0 < n" "n < 2 ^ 24"
  shows "nearest w (of_nat n) = Some (of_nat n)" "nearest w (- of_nat n) = Some (- of_nat n)"
proof -
  define e where "e = natLog 2 n"
  have e: "e < 24" using natLog_less [of 2 n 24] assms by (simp add: e_def)
  have fl: "floorLog 2 (of_nat n) = int e" using assms(1) by (simp add: floorLog_def e_def)
  define k where "k = mantBits w - 1 - e"
  have mb: "24 \<le> mantBits w" by (cases w) simp_all
  have em: "expMin w < 0" "128 \<le> expMax w + 1" by (cases w; simp)+
  have mx: "max (int e) (expMin w) = int e" using em by simp
  have ex: "int e - int (mantBits w) + 1 = - int k" using e mb by (simp add: k_def)
  have ulp: "powInt 2 (int e - int (mantBits w) + 1) = 1 / 2 ^ k"
    unfolding ex by (simp add: powInt_def)
  have q: "(of_nat n :: rat) / (1 / 2 ^ k) = of_int (int (n * 2 ^ k))" by simp
  have r: "roundHalfEven (of_nat n / (1 / 2 ^ k)) = int (n * 2 ^ k)"
    unfolding q by (rule roundHalfEven_of_int)
  have y: "(of_int (int (n * 2 ^ k)) :: rat) * (1 / 2 ^ k) = of_nat n" by simp
  have "(of_nat n :: rat) < 2 ^ 24" using assms(2) by (metis of_nat_less_iff of_nat_numeral of_nat_power)
  also have "\<dots> \<le> 2 ^ nat (expMax w + 1)" by (cases w) simp_all
  finally have big: "\<not> powInt 2 (expMax w + 1) \<le> (of_nat n :: rat)"
    using em by (simp add: powInt_def)
  have body: "nearestMagnitude w (of_nat n) = Some (of_nat n)"
    unfolding nearestMagnitude_def Let_def fl mx ulp r y using big by simp
  show "nearest w (of_nat n) = Some (of_nat n)"
    using body assms(1) by (simp add: nearest_def)
  show "nearest w (- of_nat n) = Some (- of_nat n)"
    using body assms(1) by (simp add: nearest_def)
qed

lemma float_round_trip_int:
  assumes "\<bar>i\<bar> < 10 ^ 6"
  shows "fromString (FloatT w) (toString (FloatV (of_int i))) = Inr (FloatV (of_int i))"
proof -
  define n where "n = nat \<bar>i\<bar>"
  have s: "toString (FloatV (of_int i)) = showInt i"
    using assms by (simp add: showFloat_of_int)
  have n6: "n < 10 ^ 6" using assms by (simp add: n_def nat_less_iff)
  then have n24: "n < 2 ^ 24" by simp
  have e: "extractFloat w (showInt i) = Some (of_int i, [])"
  proof (cases "i = 0")
    case True
    have "scanFloat (decDigits 0) = Some (0, [])" using scanFloat_decDigits(1) [of 0] by simp
    then show ?thesis using True by (simp add: extractFloat_def showInt_def nearest_def)
  next
    case nz: False
    then have n0: "0 < n" by (simp add: n_def)
    show ?thesis
    proof (cases "i < 0")
      case True
      then have i: "nat (- i) = n" "(of_int i :: rat) = - of_nat n" by (simp_all add: n_def)
      show ?thesis
        using True scanFloat_decDigits(2) [of n] nearest_nat(2) [OF n0 n24, of w]
        by (simp add: extractFloat_def showInt_def i)
    next
      case False
      then have i: "nat i = n" "(of_int i :: rat) = of_nat n" by (simp_all add: n_def)
      show ?thesis
        using False scanFloat_decDigits(1) [of n] nearest_nat(1) [OF n0 n24, of w]
        by (simp add: extractFloat_def showInt_def i)
    qed
  qed
  show ?thesis unfolding s by (simp add: fromStringStream_def e)
qed

text \<open>The evaluation of the codec on particular numbers.\<close>

lemma floor_rat_numeral: "\<lfloor>numeral a / numeral b :: rat\<rfloor> = numeral a div numeral b"
  using floor_divide_of_int_eq [of "numeral a" "numeral b", where ?'a = rat] by simp

lemma show_1234567: "showFloat 1234567 = ''1.23457e+06''"
  apply (simp add: showFloat_def showMagnitude_def floorLog_def roundHalfEven_def powInt_def)
  apply (simp add: natLog.simps)
  apply (simp add: Let_def floor_rat_numeral)
  apply (simp add: decDigits.simps digitChar_def withFraction_def expText_def)
  apply (simp add: char_of_eq_iff)
  done

lemma scan_1234570: "scanFloat ''1.23457e+06'' = Some (1234570, [])"
  by (simp add: scanFloat_def readSign_def isspace_def isDigitOf_def digitVal_def digitsValue_def
        powInt_def Let_def)

lemma read_1234570: "fromString (FloatT fw) ''1.23457e+06'' = Inr (FloatV 1234570)"
  using nearest_nat(1) [of 1234570 fw]
  by (simp add: fromStringStream_def extractFloat_def scan_1234570)

subsection \<open>Round trip\<close>

text \<open>
  Claim C1, as amended. For an integer type, the text \<^verbatim>\<open>toString\<close> writes for a
  value of the type is read back by \<^verbatim>\<open>fromString\<close> at the same type as that value.
  For \<^verbatim>\<open>float\<close> and \<^verbatim>\<open>double\<close> the text has six significant digits; a number
  that is an integer of at most six digits is read back as itself. For
  \<^verbatim>\<open>std::string\<close> the text \<^verbatim>\<open>toString\<close> writes carries the two double quotes, and
  \<^verbatim>\<open>fromString\<close>, the identity, returns the quoted text.
\<close>

theorem round_trip_amended:
  "(limitMin sg w \<le> i \<and> i \<le> limitMax sg w \<longrightarrow>
      fromString (IntT sg w) (toString (IntV i)) = Inr (IntV i))
   \<and> (\<bar>n\<bar> < 10 ^ 6 \<longrightarrow>
      fromString (FloatT fw) (toString (FloatV (of_int n))) = Inr (FloatV (of_int n)))
   \<and> fromString StrT (toString (StrV s)) = Inr (StrV ([CHR 0x22] @ s @ [CHR 0x22]))"
  using float_round_trip_int [of n fw] by (simp add: fromStringInt_showInt)

theorem round_trip_amended_witness:
  "limitMin True W8 \<le> - 128 \<and> - 128 \<le> limitMax True W8
   \<and> toString (IntV (- 128)) = ''-128''
   \<and> fromString (IntT True W8) (toString (IntV (- 128))) = Inr (IntV (- 128))
   \<and> toString (FloatV (- 1000)) = ''-1000''
   \<and> fromString (FloatT F32) (toString (FloatV (- 1000))) = Inr (FloatV (- 1000))
   \<and> fromString StrT (toString (StrV ''hello'')) = Inr (StrV ([CHR 0x22] @ ''hello'' @ [CHR 0x22]))"
proof -
  have t: "toString (FloatV (- 1000)) = ''-1000''"
    using showFloat_of_int [of "- 1000"] by (simp add: show_defs)
  show ?thesis
    using round_trip_amended [of True W8 "- 128" "- 1000" F32 "''hello''"] t
    by (simp add: limitMin_def limitMax_def show_defs)
qed

text \<open>
  Claim C1 as stated fails for strings and for floating point numbers. The string
  \<^verbatim>\<open>hello\<close> is written as the seven characters \<^verbatim>\<open>"hello"\<close>, and reading them back
  gives a string that is not the original one. The number 1234567, which both formats
  represent, is written \<^verbatim>\<open>1.23457e+06\<close> and read back as 1234570.
\<close>

theorem round_trip_counterexample:
  "fromString StrT (toString (StrV ''hello'')) \<noteq> Inr (StrV ''hello'')
   \<and> nearest F32 1234567 = Some 1234567 \<and> nearest F64 1234567 = Some 1234567
   \<and> toString (FloatV 1234567) = ''1.23457e+06''
   \<and> fromString (FloatT F32) (toString (FloatV 1234567)) = Inr (FloatV 1234570)
   \<and> fromString (FloatT F64) (toString (FloatV 1234567)) = Inr (FloatV 1234570)"
  using nearest_nat(1) [of 1234567 F32] nearest_nat(1) [of 1234567 F64]
    read_1234570 [of F32] read_1234570 [of F64]
  by (simp add: show_1234567)

subsection \<open>Integer bounds\<close>

lemma bounds_int8:
  "fromString (IntT True W8) ''-128'' = Inr (IntV (- 128))"
  "fromString (IntT True W8) ''127'' = Inr (IntV 127)"
  "fromString (IntT True W8) ''-129'' = Inl (Error ''Cannot parse integer: -129'')"
  "fromString (IntT True W8) ''128'' = Inl (Error ''Cannot parse integer: 128'')"
  by (simp_all add: codec_defs)

lemma bounds_uint8:
  "fromString (IntT False W8) ''0'' = Inr (IntV 0)"
  "fromString (IntT False W8) ''255'' = Inr (IntV 255)"
  "fromString (IntT False W8) ''-1'' = Inl (Error ''Cannot parse unsigned integer: -1'')"
  "fromString (IntT False W8) ''256'' = Inl (Error ''Cannot parse integer: 256'')"
  by (simp_all add: codec_defs)

lemma bounds_int32:
  "fromString (IntT True W32) ''-2147483648'' = Inr (IntV (- 2147483648))"
  "fromString (IntT True W32) ''2147483647'' = Inr (IntV 2147483647)"
  "fromString (IntT True W32) ''-2147483649'' = Inl (Error ''Cannot parse integer: -2147483649'')"
  "fromString (IntT True W32) ''2147483648'' = Inl (Error ''Cannot parse integer: 2147483648'')"
  by (simp_all add: codec_defs)

lemma bounds_uint32:
  "fromString (IntT False W32) ''0'' = Inr (IntV 0)"
  "fromString (IntT False W32) ''4294967295'' = Inr (IntV 4294967295)"
  "fromString (IntT False W32) ''-1'' = Inl (Error ''Cannot parse unsigned integer: -1'')"
  "fromString (IntT False W32) ''4294967296'' = Inl (Error ''Cannot parse integer: 4294967296'')"
  by (simp_all add: codec_defs)

lemma bounds_int64:
  "fromString (IntT True W64) ''-9223372036854775808'' = Inr (IntV (- 9223372036854775808))"
  "fromString (IntT True W64) ''9223372036854775807'' = Inr (IntV 9223372036854775807)"
  "fromString (IntT True W64) ''-9223372036854775809'' =
     Inl (Error ''Cannot parse integer: -9223372036854775809'')"
  "fromString (IntT True W64) ''9223372036854775808'' =
     Inl (Error ''Cannot parse integer: 9223372036854775808'')"
  by (simp_all add: codec_defs)

lemma bounds_uint64:
  "fromString (IntT False W64) ''0'' = Inr (IntV 0)"
  "fromString (IntT False W64) ''18446744073709551615'' = Inr (IntV 18446744073709551615)"
  "fromString (IntT False W64) ''-1'' = Inl (Error ''Cannot parse unsigned integer: -1'')"
  "fromString (IntT False W64) ''18446744073709551616'' =
     Inl (Error ''Cannot parse integer: 18446744073709551616'')"
  by (simp_all add: codec_defs)

text \<open>
  Claim C5. At every integer type, the decimal text of an integer \<open>i\<close> is accepted, with
  the value \<open>i\<close>, exactly when \<open>i\<close> lies between \<^verbatim>\<open>numeric_limits<T>::min()\<close> and
  \<^verbatim>\<open>max()\<close>, and is rejected with an \<^verbatim>\<open>Error\<close> otherwise. The tokens at and one
  past the limits of the 8-, 32- and 64-bit types, signed and unsigned, are accepted and
  rejected as the claim lists them.
\<close>

theorem integer_bounds:
  "fromString (IntT sg w) (showInt i) =
     (if limitMin sg w \<le> i \<and> i \<le> limitMax sg w then Inr (IntV i)
      else Inl (Error ((if \<not> sg \<and> i < 0 then ''Cannot parse unsigned integer: ''
                        else ''Cannot parse integer: '') @ showInt i)))
   \<and> (limitMin True W8 = - 128 \<and> limitMax True W8 = 127
      \<and> limitMin False W8 = 0 \<and> limitMax False W8 = 255)
   \<and> (fromString (IntT True W8) ''-128'' = Inr (IntV (- 128))
      \<and> fromString (IntT True W8) ''127'' = Inr (IntV 127)
      \<and> fromString (IntT True W8) ''-129'' = Inl (Error ''Cannot parse integer: -129'')
      \<and> fromString (IntT True W8) ''128'' = Inl (Error ''Cannot parse integer: 128''))
   \<and> (fromString (IntT False W8) ''0'' = Inr (IntV 0)
      \<and> fromString (IntT False W8) ''255'' = Inr (IntV 255)
      \<and> fromString (IntT False W8) ''-1'' = Inl (Error ''Cannot parse unsigned integer: -1'')
      \<and> fromString (IntT False W8) ''256'' = Inl (Error ''Cannot parse integer: 256''))
   \<and> (fromString (IntT True W32) ''-2147483648'' = Inr (IntV (- 2147483648))
      \<and> fromString (IntT True W32) ''2147483647'' = Inr (IntV 2147483647)
      \<and> fromString (IntT True W32) ''-2147483649'' = Inl (Error ''Cannot parse integer: -2147483649'')
      \<and> fromString (IntT True W32) ''2147483648'' = Inl (Error ''Cannot parse integer: 2147483648''))
   \<and> (fromString (IntT False W32) ''0'' = Inr (IntV 0)
      \<and> fromString (IntT False W32) ''4294967295'' = Inr (IntV 4294967295)
      \<and> fromString (IntT False W32) ''-1'' = Inl (Error ''Cannot parse unsigned integer: -1'')
      \<and> fromString (IntT False W32) ''4294967296'' = Inl (Error ''Cannot parse integer: 4294967296''))
   \<and> (fromString (IntT True W64) ''-9223372036854775808'' = Inr (IntV (- 9223372036854775808))
      \<and> fromString (IntT True W64) ''9223372036854775807'' = Inr (IntV 9223372036854775807)
      \<and> fromString (IntT True W64) ''-9223372036854775809'' =
           Inl (Error ''Cannot parse integer: -9223372036854775809'')
      \<and> fromString (IntT True W64) ''9223372036854775808'' =
           Inl (Error ''Cannot parse integer: 9223372036854775808''))
   \<and> (fromString (IntT False W64) ''0'' = Inr (IntV 0)
      \<and> fromString (IntT False W64) ''18446744073709551615'' = Inr (IntV 18446744073709551615)
      \<and> fromString (IntT False W64) ''-1'' = Inl (Error ''Cannot parse unsigned integer: -1'')
      \<and> fromString (IntT False W64) ''18446744073709551616'' =
           Inl (Error ''Cannot parse integer: 18446744073709551616''))"
proof -
  have g: "fromString (IntT sg w) (showInt i) =
     (if limitMin sg w \<le> i \<and> i \<le> limitMax sg w then Inr (IntV i)
      else Inl (Error ((if \<not> sg \<and> i < 0 then ''Cannot parse unsigned integer: ''
                        else ''Cannot parse integer: '') @ showInt i)))"
    by (simp add: fromStringInt_showInt)
  have l: "limitMin True W8 = - 128 \<and> limitMax True W8 = 127
      \<and> limitMin False W8 = 0 \<and> limitMax False W8 = 255"
    by (simp add: limitMin_def limitMax_def)
  show ?thesis
    using g l bounds_int8 bounds_uint8 bounds_int32 bounds_uint32 bounds_int64 bounds_uint64
    by blast
qed

theorem integer_bounds_witness:
  "showInt 128 = ''128'' \<and> showInt (- 1) = ''-1''
   \<and> fromString (IntT True W8) (showInt 128) = Inl (Error ''Cannot parse integer: 128'')
   \<and> fromString (IntT False W16) (showInt 65535) = Inr (IntV 65535)
   \<and> fromString (IntT False W16) (showInt (- 1)) = Inl (Error ''Cannot parse unsigned integer: -1'')"
proof -
  have a: "showInt 128 = ''128''" "showInt (- 1) = ''-1''"
    by (simp_all add: show_defs)
  have b: "fromString (IntT True W8) (showInt 128) = Inl (Error ''Cannot parse integer: 128'')"
    using integer_bounds [of True W8 128] a by (simp add: limitMin_def limitMax_def)
  have c: "fromString (IntT False W16) (showInt 65535) = Inr (IntV 65535)"
    using integer_bounds [of False W16 65535] by (simp add: limitMin_def limitMax_def)
  have d: "fromString (IntT False W16) (showInt (- 1)) = Inl (Error ''Cannot parse unsigned integer: -1'')"
    using integer_bounds [of False W16 "- 1"] a by (simp add: limitMin_def limitMax_def)
  show ?thesis using a b c d by simp
qed

subsection \<open>The base of an integer token\<close>



section \<open>Properties of the parse stages\<close>

subsection \<open>What the stages leave unchanged\<close>

lemma argParse_fields:
  assumes "argParse a s p = Inr q"
  shows "operands q = operands p" "options q = options p" "isTerminated q = isTerminated p"
  using assms by (auto simp: argParse_def split: kind.splits sum.splits)

lemma argDone_fields:
  assumes "argDone a p = Inr (a', q)"
  shows "operands q = operands p" "options q = options p" "isTerminated q = isTerminated p"
    "a' = a\<lparr>isDone := True\<rparr>"
  using assms by (auto simp: argDone_def split: kind.splits)

lemma optionDone_operands: "optionDone i p = Inr q \<Longrightarrow> operands q = operands p"
  by (auto simp: optionDone_def split: sum.splits dest: argDone_fields(1))

lemma optionParseDone_operands: "optionParseDone i s p = Inr q \<Longrightarrow> operands q = operands p"
  by (auto simp: optionParseDone_def split: sum.splits dest!: argParse_fields(1) optionDone_operands)

lemma parseLongOption_operands: "parseLongOption p it = Inr (it1, q) \<Longrightarrow> operands q = operands p"
  by (auto simp: parseLongOption_def Let_def split: list.splits if_splits sum.splits
      dest: optionParseDone_operands optionDone_operands)

lemma shortLoop_operands:
  "shortLoop token nameIt p it = Inr (it1, q) \<Longrightarrow> operands q = operands p"
proof (induction token nameIt p it rule: shortLoop.induct)
  case (1 token p it)
  then show ?case by simp
next
  case (2 token c nameIt p it)
  then show ?case
    by (fastforce split: sum.splits if_splits list.splits
        dest: optionParseDone_operands optionDone_operands)
qed

lemma parseShortOptions_operands:
  "parseShortOptions p it = Inr (it1, q) \<Longrightarrow> operands q = operands p"
  by (auto simp: parseShortOptions_def split: list.splits if_splits dest: shortLoop_operands)

lemma parseTerminator_operands: "parseTerminator p it = (it1, q) \<Longrightarrow> operands q = operands p"
  by (auto simp: parseTerminator_def split: list.splits if_splits)

lemma parseTerminator_same:
  "parseTerminator p it = (it1, p1) \<Longrightarrow> \<not> length it1 < length it \<Longrightarrow> it1 = it \<and> p1 = p"
  by (auto simp: parseTerminator_def split: list.splits if_splits)

lemma parseLongOption_same:
  "parseLongOption p it = Inr (it1, p1) \<Longrightarrow> \<not> length it1 < length it \<Longrightarrow> it1 = it \<and> p1 = p"
  by (auto simp: parseLongOption_def Let_def split: list.splits if_splits sum.splits)

lemma parseShortOptions_same:
  "parseShortOptions p it = Inr (it1, p1) \<Longrightarrow> \<not> length it1 < length it \<Longrightarrow> it1 = it \<and> p1 = p"
  by (auto simp: parseShortOptions_def split: list.splits if_splits dest: shortLoop_length)

lemma parseOptions_unfold:
  "parseOptions p it =
     (case parseTerminator p it of
        (it1, p1) \<Rightarrow>
          if length it1 < length it then Inr (it1, p1)
          else
            (case parseLongOption p it of
               Inl e \<Rightarrow> Inl e
             | Inr (it2, p2) \<Rightarrow>
                 if length it2 < length it then parseOptions p2 it2
                 else
                   (case parseShortOptions p it of
                      Inl e \<Rightarrow> Inl e
                    | Inr (it3, p3) \<Rightarrow>
                        if length it3 < length it then parseOptions p3 it3
                        else Inr (it, p))))"
proof -
  obtain it1 p1 where t: "parseTerminator p it = (it1, p1)" by (cases "parseTerminator p it")
  have l1: "length it1 \<le> length it" using t by (rule parseTerminator_length)
  show ?thesis
  proof (cases "length it1 < length it")
    case True
    then show ?thesis using t by (subst parseOptions.simps) simp
  next
    case False
    then have e1: "it1 = it" "p1 = p" using parseTerminator_same [OF t] by simp_all
    show ?thesis
    proof (cases "parseLongOption p it")
      case (Inl e)
      then show ?thesis using t e1 by (subst parseOptions.simps) simp
    next
      case (Inr r)
      obtain it2 p2 where r: "r = (it2, p2)" by (cases r)
      have l2: "length it2 \<le> length it" using Inr r parseLongOption_length by blast
      show ?thesis
      proof (cases "length it2 < length it")
        case True
        then show ?thesis using t e1 Inr r by (subst parseOptions.simps) simp
      next
        case False
        then have e2: "it2 = it" "p2 = p"
          using parseLongOption_same [of p it it2 p2] Inr r by simp_all
        show ?thesis
        proof (cases "parseShortOptions p it")
          case (Inl e)
          then show ?thesis using t e1 Inr r e2 by (subst parseOptions.simps) simp
        next
          case sr: (Inr r3)
          obtain it3 p3 where r3: "r3 = (it3, p3)" by (cases r3)
          have l3: "length it3 \<le> length it" using sr r3 parseShortOptions_length by blast
          show ?thesis
          proof (cases "length it3 < length it")
            case True
            then show ?thesis using t e1 Inr r e2 sr r3 by (subst parseOptions.simps) simp
          next
            case False
            then have "it3 = it" "p3 = p"
              using parseShortOptions_same [of p it it3 p3] sr r3 by simp_all
            then show ?thesis using t e1 Inr r e2 sr r3 by (subst parseOptions.simps) simp
          qed
        qed
      qed
    qed
  qed
qed

lemma parseOptions_operands: "parseOptions p it = Inr (it1, q) \<Longrightarrow> operands q = operands p"
proof (induction "length it" arbitrary: p it rule: less_induct)
  case less
  note IH = less.hyps
  from less.prems show ?case
    apply (subst (asm) parseOptions_unfold)
    apply (auto split: prod.splits sum.splits if_splits
        dest!: parseTerminator_operands parseLongOption_operands parseShortOptions_operands)
     apply (metis IH)+
    done
qed

subsection \<open>A sink reads to the end\<close>

lemma operandDone_isSink:
  assumes "operandDone i p = Inr q"
  shows "map isSink (operands q) = map isSink (operands p)"
    "isSink (operands q ! i) = isSink (operands p ! i)"
proof -
  obtain a' p1 where d: "argDone (operands p ! i) p = Inr (a', p1)"
    and q: "q = p1\<lparr>operands := (operands p1)[i := a']\<rparr>"
    using assms by (auto simp: operandDone_def split: sum.splits)
  have o: "operands p1 = operands p" and a': "a' = (operands p ! i)\<lparr>isDone := True\<rparr>"
    using argDone_fields [OF d] by simp_all
  show "map isSink (operands q) = map isSink (operands p)"
  proof (cases "i < length (operands p)")
    case True
    then show ?thesis by (simp add: q o a' map_update list_update_same_conv)
  next
    case False
    then show ?thesis by (simp add: q o list_update_beyond not_less)
  qed
  show "isSink (operands q ! i) = isSink (operands p ! i)"
  proof (cases "i < length (operands p)")
    case True
    then show ?thesis by (simp add: q o a')
  next
    case False
    then show ?thesis by (simp add: q o list_update_beyond not_less)
  qed
qed

lemma operandParseDone_isSink:
  assumes "operandParseDone i s p = Inr q"
  shows "map isSink (operands q) = map isSink (operands p)"
    "isSink (operands q ! i) = isSink (operands p ! i)"
proof -
  obtain p1 where a: "argParse (operands p ! i) s p = Inr p1" and d: "operandDone i p1 = Inr q"
    using assms by (auto simp: operandParseDone_def split: sum.splits)
  have o: "operands p1 = operands p" using argParse_fields(1) [OF a] .
  show "map isSink (operands q) = map isSink (operands p)"
    using operandDone_isSink(1) [OF d] o by simp
  show "isSink (operands q ! i) = isSink (operands p ! i)"
    using operandDone_isSink(2) [OF d] o by simp
qed

lemma parseOperandContent_isSink:
  "parseOperandContent p it i = Inr (it', q) \<Longrightarrow>
   map isSink (operands q) = map isSink (operands p)"
proof (induction "length it" arbitrary: p it rule: less_induct)
  case less
  obtain it1 p1 where t: "parseTerminator p it = (it1, p1)" by (cases "parseTerminator p it")
  have o1: "operands p1 = operands p" using t by (rule parseTerminator_operands)
  have l1: "length it1 \<le> length it" using t by (rule parseTerminator_length)
  show ?case
  proof (cases it1)
    case Nil
    with less.prems t have "q = p1" by (subst (asm) parseOperandContent.simps) simp
    then show ?thesis using o1 by simp
  next
    case (Cons tk it2)
    from less.prems t Cons obtain p2 where pd: "operandParseDone i tk p1 = Inr p2"
      by (subst (asm) parseOperandContent.simps) (auto split: if_splits sum.splits)
    have o2: "map isSink (operands p2) = map isSink (operands p)"
      using operandParseDone_isSink(1) [OF pd] o1 by simp
    show ?thesis
    proof (cases "isSink (operands p2 ! i)")
      case True
      with less.prems t Cons pd have r: "parseOperandContent p2 it2 i = Inr (it', q)"
        by (subst (asm) parseOperandContent.simps) (auto split: if_splits)
      have "length it2 < length it" using l1 Cons by simp
      then have "map isSink (operands q) = map isSink (operands p2)"
        using less.hyps r by blast
      then show ?thesis using o2 by simp
    next
      case False
      with less.prems t Cons pd have "q = p2"
        by (subst (asm) parseOperandContent.simps) (auto split: if_splits)
      then show ?thesis using o2 by simp
    qed
  qed
qed

lemma sink_reads_to_end:
  "isSink (operands p ! i) \<Longrightarrow> parseOperandContent p it i = Inr (it', q) \<Longrightarrow> it' = []"
proof (induction "length it" arbitrary: p it rule: less_induct)
  case less
  obtain it1 p1 where t: "parseTerminator p it = (it1, p1)" by (cases "parseTerminator p it")
  have o1: "operands p1 = operands p" using t by (rule parseTerminator_operands)
  have l1: "length it1 \<le> length it" using t by (rule parseTerminator_length)
  show ?case
  proof (cases it1)
    case Nil
    with less.prems t show ?thesis by (subst (asm) parseOperandContent.simps) simp
  next
    case (Cons tk it2)
    from less.prems t Cons obtain p2 where pd: "operandParseDone i tk p1 = Inr p2"
      by (subst (asm) parseOperandContent.simps) (auto split: if_splits sum.splits)
    have s2: "isSink (operands p2 ! i)"
      using operandParseDone_isSink(2) [OF pd] o1 less.prems(1) by simp
    with less.prems t Cons pd have r: "parseOperandContent p2 it2 i = Inr (it', q)"
      by (subst (asm) parseOperandContent.simps) (auto split: if_splits)
    have "length it2 < length it" using l1 Cons by simp
    then show ?thesis using less.hyps s2 r by blast
  qed
qed

lemma parseOperandsLoop_sink_last:
  "n < length (operands p) \<Longrightarrow> isSink (operands p ! n) \<Longrightarrow>
   parseOperandsLoop (is @ [n]) p it = Inr (it', q) \<Longrightarrow> it' = []"
proof (induction "is" arbitrary: p it)
  case Nil
  then show ?case by (auto split: sum.splits dest: sink_reads_to_end)
next
  case (Cons i "is")
  from Cons.prems(3) obtain it1 p1 where c: "parseOperandContent p it i = Inr (it1, p1)"
    and r: "parseOperandsLoop (is @ [n]) p1 it1 = Inr (it', q)"
    by (auto split: sum.splits)
  have m: "map isSink (operands p1) = map isSink (operands p)"
    using c by (rule parseOperandContent_isSink)
  then have len: "length (operands p1) = length (operands p)" by (rule map_eq_imp_length_eq)
  have "isSink (operands p1 ! n) = isSink (operands p ! n)"
    using m len Cons.prems(1) by (metis nth_map)
  then show ?case using Cons.IH [of p1 it1] len Cons.prems r by simp
qed

lemma parseOperands_sink_last:
  assumes "operands p \<noteq> []" "isSink (last (operands p))" "parseOperands p it = Inr (it', q)"
  shows "it' = []"
proof -
  define n where "n = length (operands p) - 1"
  have n: "n < length (operands p)" "Suc n = length (operands p)"
    using assms(1) by (simp_all add: n_def)
  have l: "last (operands p) = operands p ! n"
    using assms(1) by (simp add: last_conv_nth n_def)
  have u: "[0 ..< length (operands p)] = [0 ..< n] @ [n]"
    using n(2) by (metis upt_Suc_append zero_le)
  show ?thesis
    using parseOperandsLoop_sink_last [of n p "[0 ..< n]" it it' q] n(1) l assms(2,3) u
    by (simp add: parseOperands_def)
qed

subsection \<open>Which errors the stages throw\<close>

lemma fromString_not_end: "fromString T s \<noteq> Inl (Error (''Unexpected argument: '' @ t))"
  by (cases T)
     (auto simp: fromStringInt_def toLongest_def fromStringStream_def
           split: sum.splits if_splits option.splits)

lemma argParse_not_end: "argParse a s p \<noteq> Inl (Error (''Unexpected argument: '' @ t), q)"
  using fromString_not_end [of _ s t]
  by (auto simp: argParse_def split: kind.splits sum.splits)

lemma argDone_not_end: "argDone a p \<noteq> Inl (Error (''Unexpected argument: '' @ t), q)"
  by (auto simp: argDone_def split: kind.splits)

lemma optionDone_not_end: "optionDone i p \<noteq> Inl (Error (''Unexpected argument: '' @ t), q)"
  using argDone_not_end by (auto simp: optionDone_def split: sum.splits)

lemma operandDone_not_end: "operandDone i p \<noteq> Inl (Error (''Unexpected argument: '' @ t), q)"
  using argDone_not_end by (auto simp: operandDone_def split: sum.splits)

lemma optionParseDone_not_end:
  "optionParseDone i s p \<noteq> Inl (Error (''Unexpected argument: '' @ t), q)"
  using argParse_not_end optionDone_not_end by (auto simp: optionParseDone_def split: sum.splits)

lemma operandParseDone_not_end:
  "operandParseDone i s p \<noteq> Inl (Error (''Unexpected argument: '' @ t), q)"
  using argParse_not_end operandDone_not_end by (auto simp: operandParseDone_def split: sum.splits)

lemma getOption_not_end:
  "getOptionLong p name \<noteq> Inl (Error (''Unexpected argument: '' @ t))"
  "getOptionShort p c \<noteq> Inl (Error (''Unexpected argument: '' @ t))"
  by (auto simp: getOptionLong_def getOptionShort_def split: option.splits)

lemma parseLongOption_not_end:
  "parseLongOption p it \<noteq> Inl (Error (''Unexpected argument: '' @ t), q)"
  using getOption_not_end(1) optionParseDone_not_end optionDone_not_end
  by (auto simp: parseLongOption_def Let_def split: list.splits sum.splits if_splits)

lemma shortLoop_not_end:
  "shortLoop token nameIt p it \<noteq> Inl (Error (''Unexpected argument: '' @ t), q)"
proof (induction token nameIt p it rule: shortLoop.induct)
  case (1 token p it)
  then show ?case by simp
next
  case (2 token c nameIt p it)
  then show ?case
    using getOption_not_end(2) optionParseDone_not_end optionDone_not_end
    by (auto split: sum.splits if_splits list.splits)
qed

lemma parseShortOptions_not_end:
  "parseShortOptions p it \<noteq> Inl (Error (''Unexpected argument: '' @ t), q)"
  using shortLoop_not_end by (auto simp: parseShortOptions_def split: list.splits)

lemma parseOptions_not_end:
  "parseOptions p it \<noteq> Inl (Error (''Unexpected argument: '' @ t), q)"
proof (induction "length it" arbitrary: p it rule: less_induct)
  case less
  show ?case
    using parseLongOption_not_end parseShortOptions_not_end less.hyps
    by (subst parseOptions_unfold) (auto split: prod.splits sum.splits)
qed

lemma parseOperandContent_not_end:
  "parseOperandContent p it i \<noteq> Inl (Error (''Unexpected argument: '' @ t), q)"
proof (induction "length it" arbitrary: p it rule: less_induct)
  case less
  obtain it1 p1 where tm: "parseTerminator p it = (it1, p1)" by (cases "parseTerminator p it")
  have l1: "length it1 \<le> length it" using tm by (rule parseTerminator_length)
  show ?case
  proof (cases it1)
    case Nil
    then show ?thesis using tm by (subst parseOperandContent.simps) simp
  next
    case (Cons tk it2)
    have "length it2 < length it" using l1 Cons by simp
    then have "\<And>p2. parseOperandContent p2 it2 i \<noteq> Inl (Error (''Unexpected argument: '' @ t), q)"
      using less.hyps by blast
    then show ?thesis
      using tm Cons operandParseDone_not_end
      by (subst parseOperandContent.simps) (auto split: sum.splits)
  qed
qed

lemma parseOperandsLoop_not_end:
  "parseOperandsLoop is p it \<noteq> Inl (Error (''Unexpected argument: '' @ t), q)"
  using parseOperandContent_not_end
  by (induction "is" arbitrary: p it) (auto split: sum.splits)

lemma checkRequired_not_end:
  "checkRequired p as \<noteq> Some (Error (''Unexpected argument: '' @ t))"
  by (induction as) auto

subsection \<open>The operands stage\<close>

lemma operand_terminator_last:
  "\<not> isTerminated p \<Longrightarrow> terminator p \<noteq> [] \<Longrightarrow>
   parseOperandContent p [terminator p] i = Inr ([], p\<lparr>isTerminated := True\<rparr>)"
  by (subst parseOperandContent.simps) (simp add: parseTerminator_def)

lemma operand_terminator_skipped:
  "\<not> isTerminated p \<Longrightarrow> terminator p \<noteq> [] \<Longrightarrow>
   parseOperandContent p (terminator p # rest) i =
     parseOperandContent (p\<lparr>isTerminated := True\<rparr>) rest i"
  by (subst parseOperandContent.simps, subst (2) parseOperandContent.simps)
     (simp add: parseTerminator_def predictLongOption_def predictShortOption_def split: list.splits)

lemma operand_unexpected_option:
  "\<not> isTerminated p \<Longrightarrow> terminator p = [] \<or> t \<noteq> terminator p \<Longrightarrow>
   predictLongOption p (t # rest) \<or> predictShortOption p (t # rest) \<Longrightarrow>
   parseOperandContent p (t # rest) i = Inl (Error (''Unexpected option: '' @ t), p)"
  by (subst parseOperandContent.simps) (auto simp: parseTerminator_def)

lemma operand_token_step:
  assumes "isTerminated p \<or> ((terminator p = [] \<or> t \<noteq> terminator p)
      \<and> \<not> predictLongOption p [t] \<and> \<not> predictShortOption p [t])"
  shows "parseOperandContent p (t # rest) i =
     (case operandParseDone i t p of
        Inl e \<Rightarrow> Inl e
      | Inr p2 \<Rightarrow> if \<not> isSink (operands p2 ! i) then Inr (rest, p2) else parseOperandContent p2 rest i)"
  using assms
  by (subst parseOperandContent.simps)
     (auto simp: parseTerminator_def predictLongOption_def predictShortOption_def)

lemma isSink_after_done:
  "isSink (((operands p)[i := (operands p ! i)\<lparr>isDone := True\<rparr>]) ! i) = isSink (operands p ! i)"
  by (cases "i < length (operands p)") (simp_all add: list_update_beyond not_less)

lemma operand_value_bound:
  assumes "isTerminated p \<or> ((terminator p = [] \<or> t \<noteq> terminator p)
      \<and> \<not> predictLongOption p [t] \<and> \<not> predictShortOption p [t])"
    "kind (operands p ! i) = ValueArg T a d" "\<not> isSink (operands p ! i)"
  shows "parseOperandContent p (t # rest) i =
     (case fromString T t of
        Inl e \<Rightarrow> Inl (e, p)
      | Inr v \<Rightarrow> Inr (rest, p\<lparr>vars := (vars p)(a := v),
            operands := (operands p)[i := (operands p ! i)\<lparr>isDone := True\<rparr>]\<rparr>))"
  using assms(2,3) isSink_after_done [of p i]
  by (subst operand_token_step [OF assms(1)])
     (simp add: operandParseDone_def argParse_def operandDone_def argDone_def split: sum.splits)

lemma operand_sink_bound:
  assumes "isTerminated p \<or> ((terminator p = [] \<or> t \<noteq> terminator p)
      \<and> \<not> predictLongOption p [t] \<and> \<not> predictShortOption p [t])"
    "kind (operands p ! i) = SinkArg T a" "isSink (operands p ! i)"
  shows "parseOperandContent p (t # rest) i =
     (case fromString T t of
        Inl e \<Rightarrow> Inl (e, p)
      | Inr v \<Rightarrow> parseOperandContent (p\<lparr>sinks := (sinks p)(a := sinks p a @ [v]),
            operands := (operands p)[i := (operands p ! i)\<lparr>isDone := True\<rparr>]\<rparr>) rest i)"
  using assms(2,3) isSink_after_done [of p i]
  by (subst operand_token_step [OF assms(1)])
     (simp add: operandParseDone_def argParse_def operandDone_def argDone_def split: sum.splits)

lemma bare_prefix_not_predicted:
  "\<not> predictLongOption p [[shortPrefix p]]" "\<not> predictShortOption p [[shortPrefix p]]"
  by (auto simp: predictLongOption_def predictShortOption_def)

lemma sink_takes_all_after_terminator:
  "isTerminated p \<Longrightarrow> i < length (operands p) \<Longrightarrow> kind (operands p ! i) = SinkArg StrT a \<Longrightarrow>
   isSink (operands p ! i) \<Longrightarrow>
   \<exists>q. parseOperandContent p toks i = Inr ([], q) \<and> sinks q a = sinks p a @ map StrV toks"
proof (induction toks arbitrary: p)
  case Nil
  show ?case by (subst parseOperandContent.simps) (simp add: parseTerminator_def)
next
  case (Cons t toks)
  define p2 where "p2 = p\<lparr>sinks := (sinks p)(a := sinks p a @ [StrV t]),
      operands := (operands p)[i := (operands p ! i)\<lparr>isDone := True\<rparr>]\<rparr>"
  have opd: "operandParseDone i t p = Inr p2"
    using Cons.prems by (simp add: operandParseDone_def argParse_def operandDone_def argDone_def p2_def)
  have step: "parseOperandContent p (t # toks) i = parseOperandContent p2 toks i"
    using Cons.prems opd
    by (subst parseOperandContent.simps)
       (simp add: parseTerminator_def predictLongOption_def predictShortOption_def p2_def)
  have "\<exists>q. parseOperandContent p2 toks i = Inr ([], q) \<and> sinks q a = sinks p2 a @ map StrV toks"
    using Cons.prems by (intro Cons.IH) (simp_all add: p2_def)
  then show ?case using step by (auto simp: p2_def)
qed

text \<open>
  Claim C3, amended. In the loop of the operands stage, for the operand at index \<open>i\<close>:
  while the parser is not terminated, a token equal to the (non-empty) terminator sets
  \<open>isTerminated\<close> and is skipped, it is never passed to the operand, and the loop goes
  on with the token after it in the terminated state; a token that is not the
  terminator and that \<^verbatim>\<open>predictLongOption\<close> or \<^verbatim>\<open>predictShortOption\<close> accepts is
  refused with \<^verbatim>\<open>Unexpected option\<close> and nothing is written. Every token that is read
  once the parser is terminated, and before that every token that is neither the
  terminator nor accepted by one of the two predictions, is bound: its conversion is
  assigned to the variable of a single-value operand, which is marked done and ends the
  loop with the iterator behind the token, or it is appended to the container of a sink,
  whose loop goes on; a conversion that fails returns its error and writes nothing. A
  sink of strings therefore takes all the tokens that are left once the parser is
  terminated, the option-like ones and later terminator strings included. The token
  made of the short prefix alone is bound in this way in either state, unless that
  token is itself the terminator still to be read.
\<close>

theorem operand_stage_tokens:
  "(\<not> isTerminated p \<and> terminator p \<noteq> [] \<longrightarrow>
      parseOperandContent p [terminator p] i = Inr ([], p\<lparr>isTerminated := True\<rparr>)
      \<and> parseOperandContent p (terminator p # rest) i =
          parseOperandContent (p\<lparr>isTerminated := True\<rparr>) rest i)
   \<and> (\<not> isTerminated p \<and> (terminator p = [] \<or> t \<noteq> terminator p)
       \<and> (predictLongOption p (t # rest) \<or> predictShortOption p (t # rest)) \<longrightarrow>
      parseOperandContent p (t # rest) i = Inl (Error (''Unexpected option: '' @ t), p))
   \<and> ((isTerminated p \<or> ((terminator p = [] \<or> t \<noteq> terminator p)
           \<and> \<not> predictLongOption p [t] \<and> \<not> predictShortOption p [t]))
       \<and> kind (operands p ! i) = ValueArg T a d \<and> \<not> isSink (operands p ! i) \<longrightarrow>
      parseOperandContent p (t # rest) i =
        (case fromString T t of
           Inl e \<Rightarrow> Inl (e, p)
         | Inr v \<Rightarrow> Inr (rest, p\<lparr>vars := (vars p)(a := v),
               operands := (operands p)[i := (operands p ! i)\<lparr>isDone := True\<rparr>]\<rparr>)))
   \<and> ((isTerminated p \<or> ((terminator p = [] \<or> t \<noteq> terminator p)
           \<and> \<not> predictLongOption p [t] \<and> \<not> predictShortOption p [t]))
       \<and> kind (operands p ! i) = SinkArg T a \<and> isSink (operands p ! i) \<longrightarrow>
      parseOperandContent p (t # rest) i =
        (case fromString T t of
           Inl e \<Rightarrow> Inl (e, p)
         | Inr v \<Rightarrow> parseOperandContent (p\<lparr>sinks := (sinks p)(a := sinks p a @ [v]),
               operands := (operands p)[i := (operands p ! i)\<lparr>isDone := True\<rparr>]\<rparr>) rest i))
   \<and> (isTerminated p \<and> i < length (operands p) \<and> kind (operands p ! i) = SinkArg StrT a
       \<and> isSink (operands p ! i) \<longrightarrow>
      (\<exists>q. parseOperandContent p toks i = Inr ([], q) \<and> sinks q a = sinks p a @ map StrV toks))
   \<and> ((isTerminated p \<or> terminator p \<noteq> [shortPrefix p])
       \<and> kind (operands p ! i) = ValueArg StrT a d \<and> \<not> isSink (operands p ! i) \<longrightarrow>
      parseOperandContent p ([shortPrefix p] # rest) i =
        Inr (rest, p\<lparr>vars := (vars p)(a := StrV [shortPrefix p]),
               operands := (operands p)[i := (operands p ! i)\<lparr>isDone := True\<rparr>]\<rparr>))
   \<and> ((isTerminated p \<or> terminator p \<noteq> [shortPrefix p])
       \<and> kind (operands p ! i) = SinkArg StrT a \<and> isSink (operands p ! i) \<longrightarrow>
      parseOperandContent p ([shortPrefix p] # rest) i =
        parseOperandContent (p\<lparr>sinks := (sinks p)(a := sinks p a @ [StrV [shortPrefix p]]),
               operands := (operands p)[i := (operands p ! i)\<lparr>isDone := True\<rparr>]\<rparr>) rest i)"
proof -
  have bare: "isTerminated p \<or> ((terminator p = [] \<or> [shortPrefix p] \<noteq> terminator p)
           \<and> \<not> predictLongOption p [[shortPrefix p]] \<and> \<not> predictShortOption p [[shortPrefix p]])"
    if "isTerminated p \<or> terminator p \<noteq> [shortPrefix p]"
    using that bare_prefix_not_predicted [of p] by auto
  have 6: "parseOperandContent p ([shortPrefix p] # rest) i =
        Inr (rest, p\<lparr>vars := (vars p)(a := StrV [shortPrefix p]),
               operands := (operands p)[i := (operands p ! i)\<lparr>isDone := True\<rparr>]\<rparr>)"
    if "(isTerminated p \<or> terminator p \<noteq> [shortPrefix p])
       \<and> kind (operands p ! i) = ValueArg StrT a d \<and> \<not> isSink (operands p ! i)"
    using operand_value_bound [OF bare, of i StrT a d rest] that by simp
  have 7: "parseOperandContent p ([shortPrefix p] # rest) i =
        parseOperandContent (p\<lparr>sinks := (sinks p)(a := sinks p a @ [StrV [shortPrefix p]]),
               operands := (operands p)[i := (operands p ! i)\<lparr>isDone := True\<rparr>]\<rparr>) rest i"
    if "(isTerminated p \<or> terminator p \<noteq> [shortPrefix p])
       \<and> kind (operands p ! i) = SinkArg StrT a \<and> isSink (operands p ! i)"
    using operand_sink_bound [OF bare, of i StrT a rest] that by simp
  show ?thesis
    using operand_terminator_last [of p i] operand_terminator_skipped [of p rest i]
      operand_unexpected_option [of p t rest i]
      operand_value_bound [of p t i T a d rest] operand_sink_bound [of p t i T a rest]
      sink_takes_all_after_terminator [of p i a toks] 6 7
    by blast
qed

theorem operand_stage_tokens_witness:
  "parseOperandContent exampleParser [''--''] 1 = Inr ([], exampleParser\<lparr>isTerminated := True\<rparr>)
   \<and> parseOperandContent exampleParser [''--'', ''-x''] 0 =
       Inr ([], exampleParser\<lparr>isTerminated := True, vars := (vars exampleParser)(1 := StrV ''-x''),
             operands := (operands exampleParser)[0 := (operands exampleParser ! 0)\<lparr>isDone := True\<rparr>]\<rparr>)
   \<and> parseOperandContent exampleParser [''-x'', ''y''] 1 =
       Inl (Error ''Unexpected option: -x'', exampleParser)
   \<and> parseOperandContent exampleParser [''--xx'', ''y''] 1 =
       Inl (Error ''Unexpected option: --xx'', exampleParser)
   \<and> (\<exists>q. parseOperandContent (exampleParser\<lparr>isTerminated := True\<rparr>) [''-x'', ''--'', ''--y''] 1
             = Inr ([], q)
          \<and> sinks q 0 = [StrV ''-x'', StrV ''--'', StrV ''--y''])
   \<and> parseOperandContent exampleParser [''-'', ''y''] 0 =
       Inr ([''y''], exampleParser\<lparr>vars := (vars exampleParser)(1 := StrV ''-''),
             operands := (operands exampleParser)[0 := (operands exampleParser ! 0)\<lparr>isDone := True\<rparr>]\<rparr>)
   \<and> (case parseOperandContent exampleParser [''-'', ''y''] 1 of
        Inl e \<Rightarrow> False
      | Inr (it, q) \<Rightarrow> it = [] \<and> sinks q 0 = [StrV ''-'', StrV ''y''])
   \<and> vars exampleParser 1 = StrV ''a''"
proof -
  let ?pt = "exampleParser\<lparr>isTerminated := True\<rparr>"
  have c: "\<not> isTerminated exampleParser" "terminator exampleParser = ''--''"
    "shortPrefix exampleParser = CHR ''-''" "longPrefix exampleParser = ''--''"
    "length (operands exampleParser) = 2"
    "kind (operands exampleParser ! 0) = ValueArg StrT 1 (StrV ''a'')"
    "\<not> isSink (operands exampleParser ! 0)"
    "kind (operands exampleParser ! 1) = SinkArg StrT 0" "isSink (operands exampleParser ! 1)"
    "sinks exampleParser 0 = []" "vars exampleParser 1 = StrV ''a''"
    by (simp_all add: example_defs)
  have 1: "parseOperandContent exampleParser [''--''] 1 = Inr ([], ?pt)"
    using operand_stage_tokens [of exampleParser 1 "[''z'']" "[]" StrT 0 "StrV []" "[]"] c by simp
  have t1: "parseOperandContent exampleParser [''--'', ''-x''] 0 = parseOperandContent ?pt [''-x''] 0"
    using operand_stage_tokens [of exampleParser 0 "[''-x'']" "[]" StrT 0 "StrV []" "[]"] c by simp
  have t2: "parseOperandContent ?pt [''-x''] 0 =
       Inr ([], exampleParser\<lparr>isTerminated := True, vars := (vars exampleParser)(1 := StrV ''-x''),
             operands := (operands exampleParser)[0 := (operands exampleParser ! 0)\<lparr>isDone := True\<rparr>]\<rparr>)"
    using operand_stage_tokens [of ?pt 0 "[]" "''-x''" StrT 1 "StrV ''a''"] c by simp
  have 2: "parseOperandContent exampleParser [''-x'', ''y''] 1 =
       Inl (Error ''Unexpected option: -x'', exampleParser)"
    using operand_stage_tokens [of exampleParser 1 "[''y'']" "''-x''"] c
    by (simp add: predictShortOption_def)
  have 3: "parseOperandContent exampleParser [''--xx'', ''y''] 1 =
       Inl (Error ''Unexpected option: --xx'', exampleParser)"
    using operand_stage_tokens [of exampleParser 1 "[''y'']" "''--xx''"] c
    by (simp add: predictLongOption_def)
  have 4: "\<exists>q. parseOperandContent ?pt [''-x'', ''--'', ''--y''] 1 = Inr ([], q)
          \<and> sinks q 0 = [StrV ''-x'', StrV ''--'', StrV ''--y'']"
    using operand_stage_tokens [of ?pt 1 "[]" "[]" StrT 0 "StrV []" "[''-x'', ''--'', ''--y'']"] c
    by simp
  have 5: "parseOperandContent exampleParser [''-'', ''y''] 0 =
       Inr ([''y''], exampleParser\<lparr>vars := (vars exampleParser)(1 := StrV ''-''),
             operands := (operands exampleParser)[0 := (operands exampleParser ! 0)\<lparr>isDone := True\<rparr>]\<rparr>)"
    using operand_stage_tokens [of exampleParser 0 "[''y'']" "[]" StrT 1 "StrV ''a''"] c by simp
  have 6: "case parseOperandContent exampleParser [''-'', ''y''] 1 of
        Inl e \<Rightarrow> False
      | Inr (it, q) \<Rightarrow> it = [] \<and> sinks q 0 = [StrV ''-'', StrV ''y'']"
    by code_simp
  show ?thesis using 1 t1 t2 2 3 4 5 6 c(11) by simp
qed

text \<open>
  The exception: with the terminator configured to be the short prefix alone, the bare
  prefix token is consumed as the terminator before the operand sees it. The operand
  \<^verbatim>\<open>OUT\<close> receives the token after it, and in a whole parse the sink receives
  \<^verbatim>\<open>y\<close> only.
\<close>

theorem operand_bare_prefix_counterexample:
  "terminator (exampleParser\<lparr>terminator := ''-''\<rparr>) = [shortPrefix (exampleParser\<lparr>terminator := ''-''\<rparr>)]
   \<and> (case parseOperandContent (exampleParser\<lparr>terminator := ''-''\<rparr>) [''-'', ''y''] 0 of
        Inl e \<Rightarrow> False
      | Inr (it, q) \<Rightarrow> it = [] \<and> isTerminated q \<and> vars q 1 = StrV ''y'')
   \<and> (case parse (exampleParser\<lparr>terminator := ''-''\<rparr>) [''prog'', ''-b'', ''x'', ''-'', ''y''] of
        Inl e \<Rightarrow> False
      | Inr q \<Rightarrow> vars q 1 = StrV ''x'' \<and> sinks q 0 = [StrV ''y''])"
  by code_simp

subsection \<open>A sink as the last operand\<close>

text \<open>
  Claim C10. When the last declared operand is a sink, the operands stage returns only
  with the iterator at the end, so \<^verbatim>\<open>checkEnd\<close> finds nothing; and no stage before
  it throws a message that starts with \<^verbatim>\<open>Unexpected argument: \<close>, so no parse fails
  with that error.
\<close>

theorem sink_last_no_end_error:
  "operands p \<noteq> [] \<and> isSink (last (operands p)) \<longrightarrow>
     (\<forall>it it' q. parseOperands p it = Inr (it', q) \<longrightarrow> it' = [] \<and> checkEnd q it' = None)
     \<and> (\<forall>t q. parse p argv \<noteq> Inl (Error (''Unexpected argument: '' @ t), q))"
proof (intro impI conjI allI)
  fix it it' q
  assume a: "operands p \<noteq> [] \<and> isSink (last (operands p))" and r: "parseOperands p it = Inr (it', q)"
  show "it' = []" using parseOperands_sink_last a r by blast
  then show "checkEnd q it' = None" by (simp add: checkEnd_def)
next
  fix t q
  assume a: "operands p \<noteq> [] \<and> isSink (last (operands p))"
  show "parse p argv \<noteq> Inl (Error (''Unexpected argument: '' @ t), q)"
  proof
    assume f: "parse p argv = Inl (Error (''Unexpected argument: '' @ t), q)"
    obtain it1 p1 where u: "parseUtility p argv = (it1, p1)" by (cases "parseUtility p argv")
    have o1: "operands p1 = operands p"
      using u by (auto simp: parseUtility_def split: list.splits if_splits)
    from f u parseOptions_not_end [of p1 it1 t q]
    obtain it2 p2 where po: "parseOptions p1 it1 = Inr (it2, p2)"
      by (cases "parseOptions p1 it1") (auto simp: parse_def parseAll_def)
    have o2: "operands p2 = operands p" using parseOptions_operands [OF po] o1 by simp
    from f u po parseOperandsLoop_not_end [of _ p2 it2 t q]
    obtain it3 p3 where pr: "parseOperands p2 it2 = Inr (it3, p3)"
      by (cases "parseOperands p2 it2") (auto simp: parse_def parseAll_def parseOperands_def)
    have e: "it3 = []" using parseOperands_sink_last [of p2 it2 it3 p3] a o2 pr by simp
    show False
      using f u po pr e checkRequired_not_end
      by (auto simp: parse_def parseAll_def parseTerminator_def checkEnd_def split: option.splits)
  qed
qed

theorem sink_last_no_end_error_witness:
  "operands exampleParser \<noteq> [] \<and> isSink (last (operands exampleParser))
   \<and> (\<forall>t q. parse exampleParser [''prog'', ''-b'', ''x'', ''y'', ''z''] \<noteq>
               Inl (Error (''Unexpected argument: '' @ t), q))
   \<and> (case parse exampleParser [''prog'', ''-b'', ''x'', ''y'', ''z''] of
        Inl e \<Rightarrow> False
      | Inr q \<Rightarrow> vars q 1 = StrV ''x'' \<and> sinks q 0 = [StrV ''y'', StrV ''z''])"
proof -
  have c: "operands exampleParser \<noteq> []" "isSink (last (operands exampleParser))"
    by (simp_all add: example_defs)
  have 1: "\<forall>t q. parse exampleParser [''prog'', ''-b'', ''x'', ''y'', ''z''] \<noteq>
               Inl (Error (''Unexpected argument: '' @ t), q)"
    using sink_last_no_end_error [of exampleParser "[''prog'', ''-b'', ''x'', ''y'', ''z'']"] c
    by blast
  have 2: "case parse exampleParser [''prog'', ''-b'', ''x'', ''y'', ''z''] of
        Inl e \<Rightarrow> False
      | Inr q \<Rightarrow> vars q 1 = StrV ''x'' \<and> sinks q 0 = [StrV ''y'', StrV ''z'']"
    by code_simp
  show ?thesis using c 1 2 by blast
qed

subsection \<open>Options given one by one\<close>

lemma findIndex_Some: "findIndex P xs = Some i \<Longrightarrow> i < length xs \<and> P (xs ! i)"
proof (induction xs arbitrary: i)
  case Nil
  then show ?case by simp
next
  case (Cons x xs)
  then show ?case by (auto split: if_splits option.splits)
qed

lemma findIndex_map: "map P xs = map P ys \<Longrightarrow> findIndex P xs = findIndex P ys"
proof (induction xs arbitrary: ys)
  case Nil
  then show ?case by simp
next
  case (Cons x xs)
  then obtain y ys' where "ys = y # ys'" by (cases ys) auto
  with Cons show ?case by auto
qed

lemma getOptionLong_found:
  "getOptionLong p name = Inr i \<Longrightarrow>
   name \<noteq> [] \<and> i < length (options p) \<and> longName (options p ! i) = name"
  by (auto simp: getOptionLong_def split: option.splits if_splits dest: findIndex_Some)

lemma getOptionShort_found:
  "getOptionShort p c = Inr i \<Longrightarrow>
   c \<noteq> CHR 0x00 \<and> i < length (options p) \<and> shortName (options p ! i) = c"
  by (auto simp: getOptionShort_def split: option.splits if_splits dest: findIndex_Some)

lemma takeWhile_until:
  "x \<notin> set xs \<Longrightarrow> takeWhile (\<lambda>c. c \<noteq> x) (xs @ x # ys) = xs"
  by (induction xs) auto

lemma takeWhile_none:
  "x \<notin> set xs \<Longrightarrow> takeWhile (\<lambda>c. c \<noteq> x) xs = xs"
  by (induction xs) auto

text \<open>A long token without separator, for an option that takes no value.\<close>

lemma parseLongOption_flag:
  assumes "\<not> isTerminated p" "longPrefix p \<noteq> []" "longSeparator p \<notin> set name"
    "getOptionLong p name = Inr i" "\<not> hasValue (options p ! i)"
  shows "parseLongOption p ((longPrefix p @ name) # rest) =
     (case optionDone i p of Inl e \<Rightarrow> Inl e | Inr p2 \<Rightarrow> Inr (rest, p2))"
proof -
  have n: "name \<noteq> []" using getOptionLong_found [OF assms(4)] by simp
  have pr: "predictLongOption p ((longPrefix p @ name) # rest)"
    using assms(1,2) n by (simp add: predictLongOption_def)
  show ?thesis
    using pr assms(4,5)
    by (simp add: parseLongOption_def Let_def takeWhile_none [OF assms(3)])
qed

text \<open>The three ways to give a long or short option its value.\<close>

lemma parseLongOption_separate:
  assumes "\<not> isTerminated p" "longPrefix p \<noteq> []" "longSeparator p \<notin> set name"
    "getOptionLong p name = Inr i" "hasValue (options p ! i)"
  shows "parseLongOption p ((longPrefix p @ name) # V # rest) =
     (case optionParseDone i V p of Inl e \<Rightarrow> Inl e | Inr p2 \<Rightarrow> Inr (rest, p2))"
proof -
  have n: "name \<noteq> []" using getOptionLong_found [OF assms(4)] by simp
  have pr: "predictLongOption p ((longPrefix p @ name) # V # rest)"
    using assms(1,2) n by (simp add: predictLongOption_def)
  show ?thesis
    using pr assms(4,5)
    by (simp add: parseLongOption_def Let_def takeWhile_none [OF assms(3)])
qed

lemma parseLongOption_merged:
  assumes "\<not> isTerminated p" "longPrefix p \<noteq> []" "longSeparator p \<notin> set name"
    "getOptionLong p name = Inr i" "hasValue (options p ! i)"
  shows "parseLongOption p ((longPrefix p @ name @ longSeparator p # V) # rest) =
     (case optionParseDone i V p of Inl e \<Rightarrow> Inl e | Inr p2 \<Rightarrow> Inr (rest, p2))"
proof -
  have n: "name \<noteq> []" using getOptionLong_found [OF assms(4)] by simp
  have pr: "predictLongOption p ((longPrefix p @ name @ longSeparator p # V) # rest)"
    using assms(1,2) n by (simp add: predictLongOption_def)
  show ?thesis
    using pr assms(4,5)
    by (simp add: parseLongOption_def Let_def takeWhile_until [OF assms(3)])
qed

lemma parseShortOptions_separate:
  assumes "\<not> isTerminated p" "getOptionShort p c = Inr i" "hasValue (options p ! i)"
  shows "parseShortOptions p ([shortPrefix p, c] # V # rest) =
     (case optionParseDone i V p of Inl e \<Rightarrow> Inl e | Inr p2 \<Rightarrow> Inr (rest, p2))"
  using assms
  by (simp add: parseShortOptions_def predictShortOption_def split: sum.splits)

lemma parseShortOptions_merged:
  assumes "\<not> isTerminated p" "getOptionShort p c = Inr i" "hasValue (options p ! i)" "V \<noteq> []"
  shows "parseShortOptions p ((shortPrefix p # c # V) # rest) =
     (case optionParseDone i V p of Inl e \<Rightarrow> Inl e | Inr p2 \<Rightarrow> Inr (rest, p2))"
  using assms
  by (simp add: parseShortOptions_def predictShortOption_def split: sum.splits)

text \<open>One step of the options loop on a token the long stage takes, and on one the
  short stage takes.\<close>

lemma parseOptions_long_step:
  assumes "t \<noteq> terminator p" "parseLongOption p (t # it) = (case r of Inl e \<Rightarrow> Inl e | Inr p2 \<Rightarrow> Inr (it', p2))"
    "length it' < Suc (length it)"
  shows "parseOptions p (t # it) = (case r of Inl e \<Rightarrow> Inl e | Inr p2 \<Rightarrow> parseOptions p2 it')"
  using assms
  by (subst parseOptions_unfold) (auto simp: parseTerminator_def split: sum.splits)

lemma parseOptions_short_step:
  assumes "t \<noteq> terminator p" "\<not> predictLongOption p (t # it)"
    "parseShortOptions p (t # it) = (case r of Inl e \<Rightarrow> Inl e | Inr p2 \<Rightarrow> Inr (it', p2))"
    "length it' < Suc (length it)"
  shows "parseOptions p (t # it) = (case r of Inl e \<Rightarrow> Inl e | Inr p2 \<Rightarrow> parseOptions p2 it')"
proof -
  have l: "parseLongOption p (t # it) = Inr (t # it, p)"
    using assms(2) by (simp add: parseLongOption_def)
  show ?thesis
    using assms l
    by (subst parseOptions_unfold) (auto simp: parseTerminator_def split: sum.splits)
qed

lemma predictLongOption_head: "predictLongOption p (t # it) = predictLongOption p [t]"
  by (simp add: predictLongOption_def)

lemma after_utility [simp]:
  "isTerminated (snd (parseUtility p [u])) = isTerminated p"
  "options (snd (parseUtility p [u])) = options p"
  "operands (snd (parseUtility p [u])) = operands p"
  "terminator (snd (parseUtility p [u])) = terminator p"
  "longPrefix (snd (parseUtility p [u])) = longPrefix p"
  "shortPrefix (snd (parseUtility p [u])) = shortPrefix p"
  "longSeparator (snd (parseUtility p [u])) = longSeparator p"
  "vars (snd (parseUtility p [u])) = vars p"
  "bools (snd (parseUtility p [u])) = bools p"
  "sinks (snd (parseUtility p [u])) = sinks p"
  by (simp_all add: parseUtility_def)

lemma after_utility_lookup [simp]:
  "getOptionLong (snd (parseUtility p [u])) = getOptionLong p"
  "getOptionShort (snd (parseUtility p [u])) = getOptionShort p"
  "predictLongOption (snd (parseUtility p [u])) = predictLongOption p"
  by (auto simp: getOptionLong_def getOptionShort_def predictLongOption_def fun_eq_iff split: list.splits)

lemma parse_throws_in_options:
  "parseOptions (snd (parseUtility p [u])) toks = Inl x \<Longrightarrow> parse p (u # toks) = Inl x"
  by (simp add: parse_def parseAll_def parseUtility_def)

lemma parse_same_options:
  "parseOptions (snd (parseUtility p [u])) toks = parseOptions (snd (parseUtility p [u])) toks' \<Longrightarrow>
   parse p (u # toks) = parse p (u # toks')"
  by (simp add: parse_def parseAll_def parseUtility_def)

subsection \<open>Signals\<close>

lemma signal_done:
  "kind (options p ! i) = SignalArg \<Longrightarrow>
   optionDone i p = Inl (Signal (shortName (options p ! i)) (longName (options p ! i)), p)"
  by (simp add: optionDone_def argDone_def)

lemma signal_long_options:
  assumes "\<not> isTerminated p" "longPrefix p \<noteq> []" "longSeparator p \<notin> set name"
    "longPrefix p @ name \<noteq> terminator p"
    "getOptionLong p name = Inr i" "kind (options p ! i) = SignalArg" "\<not> hasValue (options p ! i)"
  shows "parseOptions p ((longPrefix p @ name) # rest) =
     Inl (Signal (shortName (options p ! i)) name, p)"
proof -
  have n: "longName (options p ! i) = name" using getOptionLong_found [OF assms(5)] by simp
  have l: "parseLongOption p ((longPrefix p @ name) # rest) =
      (case (Inl (Signal (shortName (options p ! i)) name, p) :: (failure \<times> parser) + parser) of
         Inl e \<Rightarrow> Inl e | Inr p2 \<Rightarrow> Inr (rest, p2))"
    using parseLongOption_flag [OF assms(1,2,3,5,7)] signal_done [OF assms(6)] n by simp
  show ?thesis
    using parseOptions_long_step [OF assms(4) l] by simp
qed

lemma signal_short_loop:
  assumes "getOptionShort p c = Inr i" "kind (options p ! i) = SignalArg" "\<not> hasValue (options p ! i)"
  shows "shortLoop token (c # cs) p it = Inl (Signal c (longName (options p ! i)), p)"
proof -
  have n: "shortName (options p ! i) = c" using getOptionShort_found [OF assms(1)] by simp
  show ?thesis using assms signal_done [OF assms(2)] n by simp
qed

lemma signal_short_options:
  assumes "\<not> isTerminated p" "shortPrefix p # c # cs \<noteq> terminator p"
    "\<not> predictLongOption p [shortPrefix p # c # cs]"
    "getOptionShort p c = Inr i" "kind (options p ! i) = SignalArg" "\<not> hasValue (options p ! i)"
  shows "parseOptions p ((shortPrefix p # c # cs) # rest) =
     Inl (Signal c (longName (options p ! i)), p)"
proof -
  have s: "parseShortOptions p ((shortPrefix p # c # cs) # rest) =
      (case (Inl (Signal c (longName (options p ! i)), p) :: (failure \<times> parser) + parser) of
         Inl e \<Rightarrow> Inl e | Inr p2 \<Rightarrow> Inr (rest, p2))"
    using assms(1) signal_short_loop [OF assms(4,5,6)]
    by (simp add: parseShortOptions_def predictShortOption_def)
  have np: "\<not> predictLongOption p ((shortPrefix p # c # cs) # rest)"
    using assms(3) predictLongOption_head by blast
  show ?thesis
    using parseOptions_short_step [OF assms(2) np s] by simp
qed

text \<open>A long token with a separator, for an option that takes no value.\<close>

lemma parseLongOption_unexpected_value:
  assumes "\<not> isTerminated p" "longPrefix p \<noteq> []" "longSeparator p \<notin> set name"
    "getOptionLong p name = Inr i" "\<not> hasValue (options p ! i)"
  shows "parseLongOption p ((longPrefix p @ name @ longSeparator p # V) # rest) =
     Inl (Error (''Unexpected option value: '' @ longPrefix p @ name @ longSeparator p # V), p)"
proof -
  have n: "name \<noteq> []" using getOptionLong_found [OF assms(4)] by simp
  have pr: "predictLongOption p ((longPrefix p @ name @ longSeparator p # V) # rest)"
    using assms(1,2) n by (simp add: predictLongOption_def)
  show ?thesis
    using pr assms(4,5)
    by (simp add: parseLongOption_def Let_def takeWhile_until [OF assms(3)])
qed

lemma options_unexpected_value:
  assumes "\<not> isTerminated p" "longPrefix p \<noteq> []" "longSeparator p \<notin> set name"
    "longPrefix p @ name @ longSeparator p # V \<noteq> terminator p"
    "getOptionLong p name = Inr i" "\<not> hasValue (options p ! i)"
  shows "parseOptions p ((longPrefix p @ name @ longSeparator p # V) # rest) =
     Inl (Error (''Unexpected option value: '' @ longPrefix p @ name @ longSeparator p # V), p)"
proof -
  let ?t = "longPrefix p @ name @ longSeparator p # V"
  have l: "parseLongOption p (?t # rest) =
      (case (Inl (Error (''Unexpected option value: '' @ ?t), p) :: (failure \<times> parser) + parser) of
         Inl e \<Rightarrow> Inl e | Inr p2 \<Rightarrow> Inr (rest, p2))"
    using parseLongOption_unexpected_value [OF assms(1,2,3,5,6)] by simp
  show ?thesis
    using parseOptions_long_step [OF assms(4) l] by simp
qed

text \<open>
  Claim C4, amended. In the options stage, a long token that is the long prefix and the
  name of a signal with no separator after it, and a short cluster at the character of
  a signal, make \<^verbatim>\<open>done()\<close> throw at once: the parse returns the \<^verbatim>\<open>Signal\<close> with
  the short and the long name of that argument and the parser as it was when the token
  was reached. No later stage runs, whatever the required arguments are, and a
  \<^verbatim>\<open>Signal\<close> is never an \<^verbatim>\<open>Error\<close>. A long token that has the separator after the
  name of the signal is refused instead with the \<^verbatim>\<open>Error\<close>
  \<^verbatim>\<open>Unexpected option value\<close>, although \<^verbatim>\<open>getOption\<close> has found the signal. (The
  long token must not be the terminator, and the short cluster must be neither the
  terminator nor taken by the long stage first.)
\<close>

theorem signal_aborts:
  "(\<not> isTerminated p \<and> longPrefix p \<noteq> [] \<and> longSeparator p \<notin> set name
      \<and> longPrefix p @ name \<noteq> terminator p \<and> getOptionLong p name = Inr i
      \<and> kind (options p ! i) = SignalArg \<and> \<not> hasValue (options p ! i) \<longrightarrow>
      parseOptions p ((longPrefix p @ name) # rest) =
        Inl (Signal (shortName (options p ! i)) name, p)
      \<and> parse p (u # (longPrefix p @ name) # rest) =
        Inl (Signal (shortName (options p ! i)) name, snd (parseUtility p [u])))
   \<and> (getOptionShort p c = Inr i \<and> kind (options p ! i) = SignalArg
      \<and> \<not> hasValue (options p ! i) \<longrightarrow>
      shortLoop token (c # cs) p it = Inl (Signal c (longName (options p ! i)), p))
   \<and> (\<not> isTerminated p \<and> shortPrefix p # c # cs \<noteq> terminator p
      \<and> \<not> predictLongOption p [shortPrefix p # c # cs] \<and> getOptionShort p c = Inr i
      \<and> kind (options p ! i) = SignalArg \<and> \<not> hasValue (options p ! i) \<longrightarrow>
      parseOptions p ((shortPrefix p # c # cs) # rest) =
        Inl (Signal c (longName (options p ! i)), p)
      \<and> parse p (u # (shortPrefix p # c # cs) # rest) =
        Inl (Signal c (longName (options p ! i)), snd (parseUtility p [u])))
   \<and> (\<not> isTerminated p \<and> longPrefix p \<noteq> [] \<and> longSeparator p \<notin> set name
      \<and> longPrefix p @ name @ longSeparator p # V \<noteq> terminator p
      \<and> getOptionLong p name = Inr i
      \<and> kind (options p ! i) = SignalArg \<and> \<not> hasValue (options p ! i) \<longrightarrow>
      parseOptions p ((longPrefix p @ name @ longSeparator p # V) # rest) =
        Inl (Error (''Unexpected option value: '' @ longPrefix p @ name @ longSeparator p # V), p)
      \<and> parse p (u # (longPrefix p @ name @ longSeparator p # V) # rest) =
        Inl (Error (''Unexpected option value: '' @ longPrefix p @ name @ longSeparator p # V),
             snd (parseUtility p [u])))
   \<and> (\<forall>m. Signal sn lname \<noteq> Error m)"
proof -
  let ?p1 = "snd (parseUtility p [u])"
  let ?tv = "longPrefix p @ name @ longSeparator p # V"
  have 4: "parseOptions p (?tv # rest) = Inl (Error (''Unexpected option value: '' @ ?tv), p)
      \<and> parse p (u # ?tv # rest) = Inl (Error (''Unexpected option value: '' @ ?tv), ?p1)"
    if h: "\<not> isTerminated p \<and> longPrefix p \<noteq> [] \<and> longSeparator p \<notin> set name
      \<and> ?tv \<noteq> terminator p \<and> getOptionLong p name = Inr i
      \<and> kind (options p ! i) = SignalArg \<and> \<not> hasValue (options p ! i)"
  proof
    show "parseOptions p (?tv # rest) = Inl (Error (''Unexpected option value: '' @ ?tv), p)"
      using h options_unexpected_value by blast
    have "parseOptions ?p1 ((longPrefix ?p1 @ name @ longSeparator ?p1 # V) # rest) =
        Inl (Error (''Unexpected option value: '' @ longPrefix ?p1 @ name @ longSeparator ?p1 # V), ?p1)"
      by (rule options_unexpected_value [where i = i]) (use h in simp_all)
    then show "parse p (u # ?tv # rest) = Inl (Error (''Unexpected option value: '' @ ?tv), ?p1)"
      using parse_throws_in_options [of p u] by simp
  qed
  have 1: "parseOptions p ((longPrefix p @ name) # rest) =
        Inl (Signal (shortName (options p ! i)) name, p)
      \<and> parse p (u # (longPrefix p @ name) # rest) =
        Inl (Signal (shortName (options p ! i)) name, ?p1)"
    if h: "\<not> isTerminated p \<and> longPrefix p \<noteq> [] \<and> longSeparator p \<notin> set name
      \<and> longPrefix p @ name \<noteq> terminator p \<and> getOptionLong p name = Inr i
      \<and> kind (options p ! i) = SignalArg \<and> \<not> hasValue (options p ! i)"
  proof
    show "parseOptions p ((longPrefix p @ name) # rest) =
        Inl (Signal (shortName (options p ! i)) name, p)"
      using h signal_long_options by blast
    have "parseOptions ?p1 ((longPrefix ?p1 @ name) # rest) =
        Inl (Signal (shortName (options ?p1 ! i)) name, ?p1)"
      by (rule signal_long_options) (use h in simp_all)
    then show "parse p (u # (longPrefix p @ name) # rest) =
        Inl (Signal (shortName (options p ! i)) name, ?p1)"
      using parse_throws_in_options [of p u] by simp
  qed
  have 2: "shortLoop token (c # cs) p it = Inl (Signal c (longName (options p ! i)), p)"
    if "getOptionShort p c = Inr i \<and> kind (options p ! i) = SignalArg
      \<and> \<not> hasValue (options p ! i)"
    using that signal_short_loop by blast
  have 3: "parseOptions p ((shortPrefix p # c # cs) # rest) =
        Inl (Signal c (longName (options p ! i)), p)
      \<and> parse p (u # (shortPrefix p # c # cs) # rest) =
        Inl (Signal c (longName (options p ! i)), ?p1)"
    if h: "\<not> isTerminated p \<and> shortPrefix p # c # cs \<noteq> terminator p
      \<and> \<not> predictLongOption p [shortPrefix p # c # cs] \<and> getOptionShort p c = Inr i
      \<and> kind (options p ! i) = SignalArg \<and> \<not> hasValue (options p ! i)"
  proof
    show "parseOptions p ((shortPrefix p # c # cs) # rest) =
        Inl (Signal c (longName (options p ! i)), p)"
      using h signal_short_options by blast
    have "parseOptions ?p1 ((shortPrefix ?p1 # c # cs) # rest) =
        Inl (Signal c (longName (options ?p1 ! i)), ?p1)"
      by (rule signal_short_options) (use h in simp_all)
    then show "parse p (u # (shortPrefix p # c # cs) # rest) =
        Inl (Signal c (longName (options p ! i)), ?p1)"
      using parse_throws_in_options [of p u] by simp
  qed
  show ?thesis using 1 2 3 4 by blast
qed

theorem signal_aborts_witness:
  "parse exampleParser [''prog'', ''--help'', ''x''] =
     Inl (Signal CHR ''h'' ''help'', snd (parseUtility exampleParser [''prog'']))
   \<and> parse exampleParser [''prog'', ''-hx'', ''y''] =
     Inl (Signal CHR ''h'' ''help'', snd (parseUtility exampleParser [''prog'']))
   \<and> parse exampleParser [''prog'', ''--help=x'', ''y''] =
     Inl (Error ''Unexpected option value: --help=x'', snd (parseUtility exampleParser [''prog'']))
   \<and> checkRequired exampleParser (options exampleParser) =
     Some (Error ''Cannot find required argument: -b'')"
proof -
  have c: "\<not> isTerminated exampleParser" "terminator exampleParser = ''--''"
    "shortPrefix exampleParser = CHR ''-''" "longPrefix exampleParser = ''--''"
    "longSeparator exampleParser = CHR ''=''"
    "getOptionLong exampleParser ''help'' = Inr 0" "getOptionShort exampleParser CHR ''h'' = Inr 0"
    "kind (options exampleParser ! 0) = SignalArg" "\<not> hasValue (options exampleParser ! 0)"
    "shortName (options exampleParser ! 0) = CHR ''h''"
    "longName (options exampleParser ! 0) = ''help''"
    by (simp_all add: example_defs getOptionLong_def getOptionShort_def)
  have 1: "parse exampleParser [''prog'', ''--help'', ''x''] =
     Inl (Signal CHR ''h'' ''help'', snd (parseUtility exampleParser [''prog'']))"
    using signal_aborts [of exampleParser "''help''" 0 "[''x'']" "''prog''"] c by simp
  have 2: "parse exampleParser [''prog'', ''-hx'', ''y''] =
     Inl (Signal CHR ''h'' ''help'', snd (parseUtility exampleParser [''prog'']))"
    using signal_aborts [of exampleParser "[]" 0 "[''y'']" "''prog''" "CHR ''h''" "[]" "''x''"] c
    by (simp add: predictLongOption_def)
  have 3: "checkRequired exampleParser (options exampleParser) =
     Some (Error ''Cannot find required argument: -b'')"
    by (simp add: example_defs expandName_def)
  have 4: "parse exampleParser [''prog'', ''--help=x'', ''y''] =
     Inl (Error ''Unexpected option value: --help=x'', snd (parseUtility exampleParser [''prog'']))"
    using signal_aborts [of exampleParser "''help''" 0 "[''y'']" "''prog''" "CHR ''h''" "''x''" "[]" "[]" "''x''"] c
    by simp
  show ?thesis using 1 2 3 4 by blast
qed

text \<open>
  The exception: \<^verbatim>\<open>getOption\<close> finds the signal \<^verbatim>\<open>help\<close> for the tokens
  \<^verbatim>\<open>--help=1\<close> and \<^verbatim>\<open>--help=\<close>, and the parse ends with an \<^verbatim>\<open>Error\<close>, not with the
  \<^verbatim>\<open>Signal\<close>.
\<close>

theorem signal_separator_counterexample:
  "getOptionLong exampleParser ''help'' = Inr 0
   \<and> kind (options exampleParser ! 0) = SignalArg
   \<and> parse exampleParser [''prog'', ''--help=1''] =
       Inl (Error ''Unexpected option value: --help=1'', snd (parseUtility exampleParser [''prog'']))
   \<and> parse exampleParser [''prog'', ''--help='', ''x''] =
       Inl (Error ''Unexpected option value: --help='', snd (parseUtility exampleParser [''prog'']))"
proof -
  let ?p1 = "snd (parseUtility exampleParser [''prog''])"
  have c: "\<not> isTerminated ?p1" "terminator ?p1 = ''--''" "longPrefix ?p1 = ''--''"
    "longSeparator ?p1 = CHR ''=''" "getOptionLong ?p1 ''help'' = Inr 0"
    "kind (options exampleParser ! 0) = SignalArg" "\<not> hasValue (options ?p1 ! 0)"
    "getOptionLong exampleParser ''help'' = Inr 0"
    by (simp_all add: example_defs getOptionLong_def)
  have 1: "parseOptions ?p1 [''--help=1''] = Inl (Error ''Unexpected option value: --help=1'', ?p1)"
    using options_unexpected_value [of ?p1 "''help''" "''1''" 0 "[]"] c by simp
  have 2: "parseOptions ?p1 [''--help='', ''x''] = Inl (Error ''Unexpected option value: --help='', ?p1)"
    using options_unexpected_value [of ?p1 "''help''" "[]" 0 "[''x'']"] c by simp
  show ?thesis
    using parse_throws_in_options [OF 1] parse_throws_in_options [OF 2] c(6,8) by simp
qed

subsection \<open>The forms of an option's value\<close>

lemma options_long_separate:
  assumes "\<not> isTerminated p" "longPrefix p \<noteq> []" "longSeparator p \<notin> set name"
    "getOptionLong p name = Inr i" "hasValue (options p ! i)"
    "longPrefix p @ name \<noteq> terminator p"
  shows "parseOptions p ((longPrefix p @ name) # V # rest) =
     (case optionParseDone i V p of Inl e \<Rightarrow> Inl e | Inr p2 \<Rightarrow> parseOptions p2 rest)"
  using parseOptions_long_step [OF assms(6) parseLongOption_separate [OF assms(1-5)]] by simp

lemma options_long_merged:
  assumes "\<not> isTerminated p" "longPrefix p \<noteq> []" "longSeparator p \<notin> set name"
    "getOptionLong p name = Inr i" "hasValue (options p ! i)"
    "longPrefix p @ name @ longSeparator p # V \<noteq> terminator p"
  shows "parseOptions p ((longPrefix p @ name @ longSeparator p # V) # rest) =
     (case optionParseDone i V p of Inl e \<Rightarrow> Inl e | Inr p2 \<Rightarrow> parseOptions p2 rest)"
  using parseOptions_long_step [OF assms(6) parseLongOption_merged [OF assms(1-5)]] by simp

lemma options_short_separate:
  assumes "\<not> isTerminated p" "getOptionShort p c = Inr i" "hasValue (options p ! i)"
    "[shortPrefix p, c] \<noteq> terminator p" "\<not> predictLongOption p [[shortPrefix p, c]]"
  shows "parseOptions p ([shortPrefix p, c] # V # rest) =
     (case optionParseDone i V p of Inl e \<Rightarrow> Inl e | Inr p2 \<Rightarrow> parseOptions p2 rest)"
proof -
  have np: "\<not> predictLongOption p ([shortPrefix p, c] # V # rest)"
    using assms(5) predictLongOption_head by blast
  show ?thesis
    using parseOptions_short_step [OF assms(4) np parseShortOptions_separate [OF assms(1-3)]]
    by simp
qed

lemma options_short_merged:
  assumes "\<not> isTerminated p" "getOptionShort p c = Inr i" "hasValue (options p ! i)" "V \<noteq> []"
    "shortPrefix p # c # V \<noteq> terminator p" "\<not> predictLongOption p [shortPrefix p # c # V]"
  shows "parseOptions p ((shortPrefix p # c # V) # rest) =
     (case optionParseDone i V p of Inl e \<Rightarrow> Inl e | Inr p2 \<Rightarrow> parseOptions p2 rest)"
proof -
  have np: "\<not> predictLongOption p ((shortPrefix p # c # V) # rest)"
    using assms(6) predictLongOption_head by blast
  show ?thesis
    using parseOptions_short_step [OF assms(5) np parseShortOptions_merged [OF assms(1-4)]]
    by simp
qed

text \<open>
  Claim C2, as amended. Let a value option be found both by its long name and by its
  short name, the long name free of the separator, the parser not terminated, none of
  the tokens below the terminator and neither short token taken by the long stage.
  Then the options loop, and with it the whole parse, gives the same result (the same
  store, the same flags or the same exception) for the value \<open>V\<close> as the next token
  after the long or the short name and for \<open>V\<close> merged after the separator, for every
  \<open>V\<close>, the empty one included; and for \<open>V\<close> merged after the short character when \<open>V\<close>
  is not empty.
\<close>

theorem value_forms_agree:
  assumes "\<not> isTerminated p" "longPrefix p \<noteq> []" "longSeparator p \<notin> set name"
    and "getOptionLong p name = Inr i" "getOptionShort p c = Inr i" "hasValue (options p ! i)"
    and "longPrefix p @ name \<noteq> terminator p"
      "longPrefix p @ name @ longSeparator p # V \<noteq> terminator p"
      "[shortPrefix p, c] \<noteq> terminator p" "shortPrefix p # c # V \<noteq> terminator p"
    and "\<not> predictLongOption p [[shortPrefix p, c]]"
      "\<not> predictLongOption p [shortPrefix p # c # V]"
  shows "parseOptions p ((longPrefix p @ name) # V # rest) =
           (case optionParseDone i V p of Inl e \<Rightarrow> Inl e | Inr p2 \<Rightarrow> parseOptions p2 rest)
    \<and> parseOptions p ((longPrefix p @ name @ longSeparator p # V) # rest) =
        parseOptions p ((longPrefix p @ name) # V # rest)
    \<and> parseOptions p ([shortPrefix p, c] # V # rest) =
        parseOptions p ((longPrefix p @ name) # V # rest)
    \<and> parse p (u # (longPrefix p @ name @ longSeparator p # V) # rest) =
        parse p (u # (longPrefix p @ name) # V # rest)
    \<and> parse p (u # [shortPrefix p, c] # V # rest) =
        parse p (u # (longPrefix p @ name) # V # rest)
    \<and> (V \<noteq> [] \<longrightarrow>
        parseOptions p ((shortPrefix p # c # V) # rest) =
          parseOptions p ((longPrefix p @ name) # V # rest)
        \<and> parse p (u # (shortPrefix p # c # V) # rest) =
          parse p (u # (longPrefix p @ name) # V # rest))"
proof -
  let ?p1 = "snd (parseUtility p [u])"
  let ?R = "\<lambda>p. (case optionParseDone i V p of Inl e \<Rightarrow> Inl e | Inr p2 \<Rightarrow> parseOptions p2 rest)"
  have a: "parseOptions p ((longPrefix p @ name) # V # rest) = ?R p"
    using options_long_separate [OF assms(1-4,6,7)] .
  have b: "parseOptions p ((longPrefix p @ name @ longSeparator p # V) # rest) = ?R p"
    using options_long_merged [OF assms(1-4,6,8)] .
  have c: "parseOptions p ([shortPrefix p, c] # V # rest) = ?R p"
    using options_short_separate [OF assms(1,5,6,9,11)] .
  have d: "parseOptions p ((shortPrefix p # c # V) # rest) = ?R p" if "V \<noteq> []"
    using options_short_merged [OF assms(1,5,6) that assms(10,12)] .
  have a1: "parseOptions ?p1 ((longPrefix ?p1 @ name) # V # rest) = ?R ?p1"
    by (rule options_long_separate) (use assms in simp_all)
  have b1: "parseOptions ?p1 ((longPrefix ?p1 @ name @ longSeparator ?p1 # V) # rest) = ?R ?p1"
    by (rule options_long_merged) (use assms in simp_all)
  have c1: "parseOptions ?p1 ([shortPrefix ?p1, c] # V # rest) = ?R ?p1"
    by (rule options_short_separate) (use assms in simp_all)
  have d1: "parseOptions ?p1 ((shortPrefix ?p1 # c # V) # rest) = ?R ?p1" if "V \<noteq> []"
    by (rule options_short_merged) (use assms that in simp_all)
  have pb: "parse p (u # (longPrefix p @ name @ longSeparator p # V) # rest) =
        parse p (u # (longPrefix p @ name) # V # rest)"
    by (rule parse_same_options) (use a1 b1 in simp)
  have pc: "parse p (u # [shortPrefix p, c] # V # rest) =
        parse p (u # (longPrefix p @ name) # V # rest)"
    by (rule parse_same_options) (use a1 c1 in simp)
  have pd: "parse p (u # (shortPrefix p # c # V) # rest) =
          parse p (u # (longPrefix p @ name) # V # rest)" if "V \<noteq> []"
    by (rule parse_same_options) (use a1 d1 [OF that] in simp)
  show ?thesis using a b c d pb pc pd by simp
qed

theorem value_forms_agree_witness:
  "parse exampleParser [''prog'', ''--aaa=A'', ''-b'', ''o'', ''f''] =
     parse exampleParser [''prog'', ''--aaa'', ''A'', ''-b'', ''o'', ''f'']
   \<and> parse exampleParser [''prog'', ''-a'', ''A'', ''-b'', ''o'', ''f''] =
     parse exampleParser [''prog'', ''--aaa'', ''A'', ''-b'', ''o'', ''f'']
   \<and> parse exampleParser [''prog'', ''-aA'', ''-b'', ''o'', ''f''] =
     parse exampleParser [''prog'', ''--aaa'', ''A'', ''-b'', ''o'', ''f'']
   \<and> (case parse exampleParser [''prog'', ''--aaa'', ''A'', ''-b'', ''o'', ''f''] of
        Inl e \<Rightarrow> False
      | Inr q \<Rightarrow> vars q 2 = StrV ''A'' \<and> vars q 1 = StrV ''o'' \<and> sinks q 0 = [StrV ''f''])"
proof -
  have c: "\<not> isTerminated exampleParser" "terminator exampleParser = ''--''"
    "shortPrefix exampleParser = CHR ''-''" "longPrefix exampleParser = ''--''"
    "longSeparator exampleParser = CHR ''=''"
    "getOptionLong exampleParser ''aaa'' = Inr 2" "getOptionShort exampleParser CHR ''a'' = Inr 2"
    "hasValue (options exampleParser ! 2)"
    by (simp_all add: example_defs getOptionLong_def getOptionShort_def)
  have t: "parse exampleParser [''prog'', ''--aaa=A'', ''-b'', ''o'', ''f''] =
     parse exampleParser [''prog'', ''--aaa'', ''A'', ''-b'', ''o'', ''f'']
   \<and> parse exampleParser [''prog'', ''-a'', ''A'', ''-b'', ''o'', ''f''] =
     parse exampleParser [''prog'', ''--aaa'', ''A'', ''-b'', ''o'', ''f'']
   \<and> parse exampleParser [''prog'', ''-aA'', ''-b'', ''o'', ''f''] =
     parse exampleParser [''prog'', ''--aaa'', ''A'', ''-b'', ''o'', ''f'']"
    using value_forms_agree [of exampleParser "''aaa''" 2 "CHR ''a''" "''A''"
        "[''-b'', ''o'', ''f'']" "''prog''"] c
    by (simp add: predictLongOption_def)
  have v: "case parse exampleParser [''prog'', ''--aaa'', ''A'', ''-b'', ''o'', ''f''] of
        Inl e \<Rightarrow> False
      | Inr q \<Rightarrow> vars q 2 = StrV ''A'' \<and> vars q 1 = StrV ''o'' \<and> sinks q 0 = [StrV ''f'']"
    by code_simp
  show ?thesis using t v by blast
qed

text \<open>
  Claim C2 as stated fails for the empty value. After \<^verbatim>\<open>--aaa=\<close> or after
  \<^verbatim>\<open>--aaa\<close> and an empty token the variable of the option is the empty string and the
  parse succeeds; the short character with the empty value merged after it is the
  token \<^verbatim>\<open>-a\<close>, which takes the next token \<^verbatim>\<open>o\<close> as its value, and the parse then
  fails for want of the required sink.
\<close>

theorem value_forms_empty_counterexample:
  "(case parse exampleParser [''prog'', ''-b'', ''--aaa='', ''o'', ''f''] of
      Inl e \<Rightarrow> False
    | Inr q \<Rightarrow> vars q 2 = StrV [] \<and> vars q 1 = StrV ''o'' \<and> sinks q 0 = [StrV ''f''])
   \<and> (case parse exampleParser [''prog'', ''-b'', ''--aaa'', [], ''o'', ''f''] of
      Inl e \<Rightarrow> False
    | Inr q \<Rightarrow> vars q 2 = StrV [] \<and> vars q 1 = StrV ''o'' \<and> sinks q 0 = [StrV ''f''])
   \<and> (case parse exampleParser [''prog'', ''-b'', ''-a'' @ [], ''o'', ''f''] of
      Inl (e, q) \<Rightarrow> e = Error ''Cannot find required argument: FILE'' \<and> vars q 2 = StrV ''o''
         \<and> vars q 1 = StrV ''f'' \<and> sinks q 0 = []
    | Inr q \<Rightarrow> False)"
proof -
  have 1: "case parse exampleParser [''prog'', ''-b'', ''--aaa='', ''o'', ''f''] of
      Inl e \<Rightarrow> False
    | Inr q \<Rightarrow> vars q 2 = StrV [] \<and> vars q 1 = StrV ''o'' \<and> sinks q 0 = [StrV ''f'']"
    by code_simp
  have 2: "case parse exampleParser [''prog'', ''-b'', ''--aaa'', [], ''o'', ''f''] of
      Inl e \<Rightarrow> False
    | Inr q \<Rightarrow> vars q 2 = StrV [] \<and> vars q 1 = StrV ''o'' \<and> sinks q 0 = [StrV ''f'']"
    by code_simp
  have 3: "case parse exampleParser [''prog'', ''-b'', ''-a'' @ [], ''o'', ''f''] of
      Inl (e, q) \<Rightarrow> e = Error ''Cannot find required argument: FILE'' \<and> vars q 2 = StrV ''o''
         \<and> vars q 1 = StrV ''f'' \<and> sinks q 0 = []
    | Inr q \<Rightarrow> False"
    by code_simp
  show ?thesis using 1 2 3 by blast
qed

subsection \<open>Relations that every stage keeps\<close>

lemma stable_refl: "stable R \<Longrightarrow> R p p"
  by (simp add: stable_def)

lemma stable_trans: "stable R \<Longrightarrow> R p q \<Longrightarrow> R q r \<Longrightarrow> R p r"
  unfolding stable_def by blast

lemma stable_argParse: "stable R \<Longrightarrow> R p (finalState (argParse a s p))"
  by (auto simp: stable_def finalState_def argParse_def split: kind.splits sum.splits)

lemma stable_optionDone: "stable R \<Longrightarrow> R p (finalState (optionDone i p))"
proof -
  assume s: "stable R"
  show ?thesis
  proof (cases "kind (options p ! i)")
    case SignalArg
    then show ?thesis using s by (simp add: finalState_def optionDone_def argDone_def stable_refl)
  next
    case (BoolArg b)
    have 1: "R p (p\<lparr>bools := (bools p)(b := True)\<rparr>)" using s by (simp add: stable_def)
    have 2: "R (p\<lparr>bools := (bools p)(b := True)\<rparr>)
        (p\<lparr>bools := (bools p)(b := True)\<rparr>\<lparr>options := (options (p\<lparr>bools := (bools p)(b := True)\<rparr>))
           [i := (options (p\<lparr>bools := (bools p)(b := True)\<rparr>) ! i)\<lparr>isDone := True\<rparr>]\<rparr>)"
      using s unfolding stable_def by blast
    show ?thesis
      using stable_trans [OF s 1 2] BoolArg by (simp add: finalState_def optionDone_def argDone_def)
  next
    case (ValueArg T b d)
    then show ?thesis using s by (simp add: finalState_def optionDone_def argDone_def stable_def)
  next
    case (SinkArg T b)
    then show ?thesis using s by (simp add: finalState_def optionDone_def argDone_def stable_def)
  qed
qed

lemma stable_operandDone: "stable R \<Longrightarrow> R p (finalState (operandDone i p))"
proof -
  assume s: "stable R"
  show ?thesis
  proof (cases "kind (operands p ! i)")
    case SignalArg
    then show ?thesis using s by (simp add: finalState_def operandDone_def argDone_def stable_refl)
  next
    case (BoolArg b)
    have 1: "R p (p\<lparr>bools := (bools p)(b := True)\<rparr>)" using s by (simp add: stable_def)
    have 2: "R (p\<lparr>bools := (bools p)(b := True)\<rparr>)
        (p\<lparr>bools := (bools p)(b := True)\<rparr>\<lparr>operands := (operands (p\<lparr>bools := (bools p)(b := True)\<rparr>))
           [i := (operands (p\<lparr>bools := (bools p)(b := True)\<rparr>) ! i)\<lparr>isDone := True\<rparr>]\<rparr>)"
      using s unfolding stable_def by blast
    show ?thesis
      using stable_trans [OF s 1 2] BoolArg by (simp add: finalState_def operandDone_def argDone_def)
  next
    case (ValueArg T b d)
    then show ?thesis using s by (simp add: finalState_def operandDone_def argDone_def stable_def)
  next
    case (SinkArg T b)
    then show ?thesis using s by (simp add: finalState_def operandDone_def argDone_def stable_def)
  qed
qed

lemma stable_optionParseDone: "stable R \<Longrightarrow> R p (finalState (optionParseDone i s p))"
proof -
  assume s: "stable R"
  show ?thesis
  proof (cases "argParse (options p ! i) s p")
    case (Inl x)
    then show ?thesis
      using stable_argParse [OF s, of p "options p ! i" s]
      by (simp add: optionParseDone_def finalState_def)
  next
    case (Inr p1)
    then have "R p p1" using stable_argParse [OF s, of p "options p ! i" s] by (simp add: finalState_def)
    then show ?thesis
      using Inr stable_optionDone [OF s, of p1 i] stable_trans [OF s]
      by (auto simp: optionParseDone_def)
  qed
qed

lemma stable_operandParseDone: "stable R \<Longrightarrow> R p (finalState (operandParseDone i s p))"
proof -
  assume s: "stable R"
  show ?thesis
  proof (cases "argParse (operands p ! i) s p")
    case (Inl x)
    then show ?thesis
      using stable_argParse [OF s, of p "operands p ! i" s]
      by (simp add: operandParseDone_def finalState_def)
  next
    case (Inr p1)
    then have "R p p1" using stable_argParse [OF s, of p "operands p ! i" s] by (simp add: finalState_def)
    then show ?thesis
      using Inr stable_operandDone [OF s, of p1 i] stable_trans [OF s]
      by (auto simp: operandParseDone_def)
  qed
qed

lemma stable_parseTerminator: "stable R \<Longrightarrow> R p (snd (parseTerminator p it))"
  by (auto simp: stable_def parseTerminator_def split: list.splits)

lemma stable_parseUtility: "stable R \<Longrightarrow> R p (snd (parseUtility p it))"
  by (auto simp: stable_def parseUtility_def split: list.splits)

lemma stable_optionDone_cases:
  assumes "stable R"
  shows "optionDone i p = Inl (e, q) \<Longrightarrow> R p q" "optionDone i p = Inr q \<Longrightarrow> R p q"
  using stable_optionDone [OF assms, of p i] by (simp_all add: finalState_def)

lemma stable_optionParseDone_cases:
  assumes "stable R"
  shows "optionParseDone i v p = Inl (e, q) \<Longrightarrow> R p q" "optionParseDone i v p = Inr q \<Longrightarrow> R p q"
  using stable_optionParseDone [OF assms, of p i v] by (simp_all add: finalState_def)

lemma stable_parseLongOption: "stable R \<Longrightarrow> R p (stateOf (parseLongOption p it))"
proof -
  assume s: "stable R"
  show ?thesis
    using stable_refl [OF s, of p]
    by (auto simp: parseLongOption_def Let_def stateOf_def
        split: list.splits sum.splits prod.splits
        dest: stable_optionDone_cases [OF s] stable_optionParseDone_cases [OF s])
qed

lemma stable_shortLoop: "stable R \<Longrightarrow> R p (stateOf (shortLoop token nameIt p it))"
proof (induction token nameIt p it rule: shortLoop.induct)
  case (1 token p it)
  then show ?case by (simp add: stateOf_def stable_refl)
next
  case (2 token c nameIt p it)
  note s = \<open>stable R\<close>
  show ?case
  proof (cases "getOptionShort p c")
    case (Inl e)
    then show ?thesis using s by (simp add: stateOf_def stable_refl)
  next
    case (Inr i)
    show ?thesis
    proof (cases "hasValue (options p ! i)")
      case hv: True
      show ?thesis
      proof (cases "nameIt \<noteq> []")
        case True
        show ?thesis
        proof (cases "optionParseDone i nameIt p")
          case (Inl x)
          then show ?thesis
            using Inr hv True stable_optionParseDone [OF s, of p i nameIt]
            by (auto simp: stateOf_def finalState_def)
        next
          case pr: (Inr p2)
          have "R p p2" using pr stable_optionParseDone [OF s, of p i nameIt] by (simp add: finalState_def)
          then show ?thesis
            using Inr hv True pr s by (simp add: stateOf_def)
        qed
      next
        case ne: False
        show ?thesis
        proof (cases it)
          case Nil
          then show ?thesis using Inr hv ne s by (simp add: stateOf_def stable_refl)
        next
          case (Cons v it1)
          show ?thesis
          proof (cases "optionParseDone i v p")
            case (Inl x)
            then show ?thesis
              using Inr hv ne Cons stable_optionParseDone [OF s, of p i v]
              by (auto simp: stateOf_def finalState_def)
          next
            case pr: (Inr p2)
            have 1: "R p p2" using pr stable_optionParseDone [OF s, of p i v] by (simp add: finalState_def)
            have 2: "R p2 (stateOf (shortLoop token nameIt p2 it1))"
              using "2.IH"(2) [OF Inr hv ne Cons pr s] .
            show ?thesis
              using Inr hv ne Cons pr stable_trans [OF s 1 2] by simp
          qed
        qed
      qed
    next
      case nv: False
      show ?thesis
      proof (cases "optionDone i p")
        case (Inl x)
        then show ?thesis
          using Inr nv stable_optionDone [OF s, of p i] by (auto simp: stateOf_def finalState_def)
      next
        case pr: (Inr p2)
        have 1: "R p p2" using pr stable_optionDone [OF s, of p i] by (simp add: finalState_def)
        have 2: "R p2 (stateOf (shortLoop token nameIt p2 it))"
          using "2.IH"(3) [OF Inr nv pr s] .
        show ?thesis using Inr nv pr stable_trans [OF s 1 2] by simp
      qed
    qed
  qed
qed

lemma stable_parseShortOptions: "stable R \<Longrightarrow> R p (stateOf (parseShortOptions p it))"
  using stable_shortLoop [of R p]
  by (auto simp: parseShortOptions_def stateOf_def stable_refl split: list.splits)

lemma stable_parseOptions: "stable R \<Longrightarrow> R p (stateOf (parseOptions p it))"
proof (induction "length it" arbitrary: p it rule: less_induct)
  case less
  note s = \<open>stable R\<close>
  obtain it1 p1 where t: "parseTerminator p it = (it1, p1)" by (cases "parseTerminator p it")
  have r1: "R p p1" using stable_parseTerminator [OF s, of p it] t by simp
  show ?case
  proof (cases "length it1 < length it")
    case True
    then show ?thesis using t r1 by (subst parseOptions_unfold) (simp add: stateOf_def)
  next
    case n1: False
    show ?thesis
    proof (cases "parseLongOption p it")
      case (Inl x)
      then show ?thesis
        using t n1 stable_parseLongOption [OF s, of p it]
        by (subst parseOptions_unfold) (simp add: stateOf_def)
    next
      case (Inr y)
      obtain it2 p2 where y: "y = (it2, p2)" by (cases y)
      have r2: "R p p2" using stable_parseLongOption [OF s, of p it] Inr y by (simp add: stateOf_def)
      show ?thesis
      proof (cases "length it2 < length it")
        case True
        have "R p2 (stateOf (parseOptions p2 it2))" using less.hyps [OF True s] .
        then show ?thesis
          using t n1 Inr y True stable_trans [OF s r2]
          by (subst parseOptions_unfold) simp
      next
        case n2: False
        show ?thesis
        proof (cases "parseShortOptions p it")
          case (Inl x)
          then show ?thesis
            using t n1 Inr y n2 stable_parseShortOptions [OF s, of p it]
            by (subst parseOptions_unfold) (simp add: stateOf_def)
        next
          case sr: (Inr z)
          obtain it3 p3 where z: "z = (it3, p3)" by (cases z)
          have r3: "R p p3"
            using stable_parseShortOptions [OF s, of p it] sr z by (simp add: stateOf_def)
          show ?thesis
          proof (cases "length it3 < length it")
            case True
            have "R p3 (stateOf (parseOptions p3 it3))" using less.hyps [OF True s] .
            then show ?thesis
              using t n1 Inr y n2 sr z True stable_trans [OF s r3]
              by (subst parseOptions_unfold) simp
          next
            case False
            then show ?thesis
              using t n1 Inr y n2 sr z stable_refl [OF s]
              by (subst parseOptions_unfold) (simp add: stateOf_def)
          qed
        qed
      qed
    qed
  qed
qed

lemma stable_parseOperandContent: "stable R \<Longrightarrow> R p (stateOf (parseOperandContent p it i))"
proof (induction "length it" arbitrary: p it rule: less_induct)
  case less
  note s = \<open>stable R\<close>
  obtain it1 p1 where t: "parseTerminator p it = (it1, p1)" by (cases "parseTerminator p it")
  have r1: "R p p1" using stable_parseTerminator [OF s, of p it] t by simp
  have l1: "length it1 \<le> length it" using t by (rule parseTerminator_length)
  show ?case
  proof (cases it1)
    case Nil
    then show ?thesis using t r1 by (subst parseOperandContent.simps) (simp add: stateOf_def)
  next
    case (Cons tk it2)
    show ?thesis
    proof (cases "predictLongOption p1 it1 \<or> predictShortOption p1 it1")
      case True
      then show ?thesis
        using t Cons r1 by (subst parseOperandContent.simps) (auto simp: stateOf_def)
    next
      case np: False
      show ?thesis
      proof (cases "operandParseDone i tk p1")
        case (Inl x)
        then have "R p1 (snd x)"
          using stable_operandParseDone [OF s, of p1 i tk] by (cases x) (simp add: finalState_def)
        then show ?thesis
          using t Cons np Inl stable_trans [OF s r1]
          by (subst parseOperandContent.simps) (cases x, auto simp: stateOf_def)
      next
        case (Inr p2)
        then have "R p1 p2"
          using stable_operandParseDone [OF s, of p1 i tk] by (simp add: finalState_def)
        then have r2: "R p p2" using stable_trans [OF s r1] by blast
        show ?thesis
        proof (cases "isSink (operands p2 ! i)")
          case True
          have "length it2 < length it" using l1 Cons by simp
          then have "R p2 (stateOf (parseOperandContent p2 it2 i))" using less.hyps s by blast
          then show ?thesis
            using t Cons np Inr True stable_trans [OF s r2]
            by (subst parseOperandContent.simps) auto
        next
          case False
          then show ?thesis
            using t Cons np Inr r2
            by (subst parseOperandContent.simps) (auto simp: stateOf_def)
        qed
      qed
    qed
  qed
qed

lemma stable_parseOperandsLoop: "stable R \<Longrightarrow> R p (stateOf (parseOperandsLoop is p it))"
proof (induction "is" arbitrary: p it)
  case Nil
  then show ?case by (simp add: stateOf_def stable_refl)
next
  case (Cons i "is")
  note s = \<open>stable R\<close>
  show ?case
  proof (cases "parseOperandContent p it i")
    case (Inl x)
    then show ?thesis using stable_parseOperandContent [OF s, of p it i] by (simp add: stateOf_def)
  next
    case (Inr y)
    obtain it1 p1 where y: "y = (it1, p1)" by (cases y)
    have 1: "R p p1" using stable_parseOperandContent [OF s, of p it i] Inr y by (simp add: stateOf_def)
    have 2: "R p1 (stateOf (parseOperandsLoop is p1 it1))" using Cons.IH [OF s] .
    show ?thesis using Inr y stable_trans [OF s 1 2] by simp
  qed
qed

lemma stable_parse: "stable R \<Longrightarrow> R p (finalState (parse p argv))"
proof -
  assume s: "stable R"
  obtain it1 p1 where u: "parseUtility p argv = (it1, p1)" by (cases "parseUtility p argv")
  have r1: "R p p1" using stable_parseUtility [OF s, of p argv] u by simp
  show ?thesis
  proof (cases "parseOptions p1 it1")
    case (Inl x)
    then have "R p1 (snd x)"
      using stable_parseOptions [OF s, of p1 it1] by (cases x) (simp add: stateOf_def)
    then show ?thesis
      using u Inl stable_trans [OF s r1]
      by (cases x) (auto simp: parse_def parseAll_def finalState_def)
  next
    case (Inr y)
    obtain it2 p2 where y: "y = (it2, p2)" by (cases y)
    have "R p1 p2" using stable_parseOptions [OF s, of p1 it1] Inr y by (simp add: stateOf_def)
    then have r2: "R p p2" using stable_trans [OF s r1] by blast
    show ?thesis
    proof (cases "parseOperands p2 it2")
      case (Inl x)
      then have "R p2 (snd x)"
        using stable_parseOperandsLoop [OF s, of p2 "[0 ..< length (operands p2)]" it2]
        by (cases x) (simp add: stateOf_def parseOperands_def)
      then show ?thesis
        using u Inr y Inl stable_trans [OF s r2]
        by (cases x) (auto simp: parse_def parseAll_def finalState_def)
    next
      case pr: (Inr z)
      obtain it3 p3 where z: "z = (it3, p3)" by (cases z)
      have "R p2 p3"
        using stable_parseOperandsLoop [OF s, of p2 "[0 ..< length (operands p2)]" it2] pr z
        by (simp add: stateOf_def parseOperands_def)
      then have r3: "R p p3" using stable_trans [OF s r2] by blast
      obtain it4 p4 where t: "parseTerminator p3 it3 = (it4, p4)" by (cases "parseTerminator p3 it3")
      have "R p3 p4" using stable_parseTerminator [OF s, of p3 it3] t by simp
      then have r4: "R p p4" using stable_trans [OF s r3] by blast
      have "finalState (parse p argv) = p4"
        using u Inr y pr z t
        by (auto simp: parse_def parseAll_def finalState_def split: option.splits)
      then show ?thesis using r4 by simp
    qed
  qed
qed

lemma done_keeps_kinds: "map kind (xs[i := (xs ! i)\<lparr>isDone := True\<rparr>]) = map kind xs"
proof (cases "i < length xs")
  case True
  then show ?thesis by (simp add: map_update list_update_same_conv)
next
  case False
  then show ?thesis by (simp add: list_update_beyond not_less)
qed

lemma stable_sameKinds: "stable sameKinds"
  unfolding stable_def by (simp add: sameKinds_def done_keeps_kinds)

subsection \<open>What is written stays written\<close>

lemma argParse_failure_writes_nothing: "argParse a s p = Inl (e, q) \<Longrightarrow> q = p"
  by (auto simp: argParse_def split: kind.splits sum.splits)

text \<open>The loop of the options stage, by its steps.\<close>

lemma parseOptions_by_step:
  "parseOptions p it =
     (case parseTerminator p it of
        (it1, p1) \<Rightarrow>
          if length it1 < length it then Inr (it1, p1)
          else
            (case optionStep p it of
               Inl e \<Rightarrow> Inl e
             | Inr (it3, p3) \<Rightarrow>
                 if length it3 < length it then parseOptions p3 it3 else Inr (it3, p3)))"
proof -
  obtain it1 p1 where tm: "parseTerminator p it = (it1, p1)" by (cases "parseTerminator p it")
  show ?thesis
  proof (cases "parseLongOption p it")
    case (Inl e)
    then show ?thesis using tm by (subst parseOptions_unfold) (simp add: optionStep_def)
  next
    case (Inr r)
    obtain it2 p2 where r: "r = (it2, p2)" by (cases r)
    have le: "length it2 \<le> length it" using Inr r parseLongOption_length by blast
    show ?thesis
    proof (cases "length it2 < length it")
      case True
      then show ?thesis
        using tm Inr r by (subst parseOptions_unfold) (simp add: optionStep_def)
    next
      case False
      then have same: "it2 = it \<and> p2 = p" using parseLongOption_same Inr r by blast
      show ?thesis
      proof (cases "parseShortOptions p it")
        case (Inl e)
        then show ?thesis
          using tm Inr r same by (subst parseOptions_unfold) (simp add: optionStep_def)
      next
        case sh: (Inr r3)
        obtain it3 p3 where r3: "r3 = (it3, p3)" by (cases r3)
        have "\<not> length it3 < length it \<Longrightarrow> it3 = it \<and> p3 = p"
          using parseShortOptions_same sh r3 by blast
        then show ?thesis
          using tm Inr r same sh r3 by (subst parseOptions_unfold) (auto simp: optionStep_def)
      qed
    qed
  qed
qed

text \<open>A step that succeeds reads only the tokens it consumes.\<close>

lemma parseLongOption_consumes:
  assumes "parseLongOption p it = Inr (it', q)" "length it' < length it"
  shows "\<exists>c. it = c @ it' \<and> c \<noteq> [] \<and> (\<forall>r. parseLongOption p (c @ r) = Inr (r, q))"
proof -
  obtain token it1 where it: "it = token # it1" using assms(2) by (cases it) auto
  have pr: "predictLongOption p it"
    using assms by (auto simp: parseLongOption_def it split: if_splits)
  have prr: "\<And>r. predictLongOption p (token # r)" using pr by (simp add: predictLongOption_def it)
  define afterPrefix where "afterPrefix = drop (length (longPrefix p)) token"
  define name where "name = takeWhile (\<lambda>c. c \<noteq> longSeparator p) afterPrefix"
  obtain i where g: "getOptionLong p name = Inr i"
    using assms(1) pr
    by (cases "getOptionLong p name") (auto simp: parseLongOption_def it Let_def name_def afterPrefix_def)
  show ?thesis
  proof (cases "hasValue (options p ! i) \<and> \<not> length name < length afterPrefix")
    case True
    then obtain v it2 where it1: "it1 = v # it2"
      using assms(1) pr g
      by (cases it1) (auto simp: parseLongOption_def it Let_def name_def afterPrefix_def)
    have r: "optionParseDone i v p = Inr q \<and> it' = it2"
      using assms(1) pr g True it1
      by (auto simp: parseLongOption_def it Let_def name_def afterPrefix_def split: sum.splits)
    have "\<forall>r. parseLongOption p ([token, v] @ r) = Inr (r, q)"
      using prr g True r
      by (auto simp: parseLongOption_def Let_def name_def afterPrefix_def)
    then show ?thesis using it it1 r by (intro exI [of _ "[token, v]"]) simp
  next
    case False
    have r: "it' = it1"
      using assms(1) pr g False
      by (auto simp: parseLongOption_def it Let_def name_def afterPrefix_def split: sum.splits if_splits)
    have "\<forall>r. parseLongOption p ([token] @ r) = Inr (r, q)"
      using assms(1) prr pr g False
      by (auto simp: parseLongOption_def it Let_def name_def afterPrefix_def split: sum.splits if_splits)
    then show ?thesis using it r by (intro exI [of _ "[token]"]) simp
  qed
qed

lemma shortLoop_consumes:
  "shortLoop token cs p it = Inr (it', q) \<Longrightarrow>
   \<exists>c. it = c @ it' \<and> (\<forall>r. shortLoop token cs p (c @ r) = Inr (r, q))"
proof (induction token cs p it rule: shortLoop.induct)
  case (1 token p it)
  then show ?case by (intro exI [of _ "[]"]) simp
next
  case (2 token c nameIt p it)
  obtain i where g: "getOptionShort p c = Inr i"
    using "2.prems" by (cases "getOptionShort p c") auto
  show ?case
  proof (cases "hasValue (options p ! i)")
    case hv: True
    show ?thesis
    proof (cases "nameIt \<noteq> []")
      case True
      obtain p2 where d: "optionParseDone i nameIt p = Inr p2"
        using "2.prems" g hv True by (cases "optionParseDone i nameIt p") auto
      have "it' = it \<and> q = p2" using "2.prems" g hv True d by simp
      then show ?thesis using g hv True d by (intro exI [of _ "[]"]) simp
    next
      case False
      obtain v it1 where it: "it = v # it1"
        using "2.prems" g hv False by (cases it) auto
      obtain p2 where d: "optionParseDone i v p = Inr p2"
        using "2.prems" g hv False it by (cases "optionParseDone i v p") auto
      have "it' = it1 \<and> q = p2" using "2.prems" g hv False it d by simp
      then show ?thesis using g hv False it d by (intro exI [of _ "[v]"]) simp
    qed
  next
    case False
    obtain p2 where d: "optionDone i p = Inr p2"
      using "2.prems" g False by (cases "optionDone i p") auto
    have "shortLoop token nameIt p2 it = Inr (it', q)" using "2.prems" g False d by simp
    then obtain c' where "it = c' @ it' \<and> (\<forall>r. shortLoop token nameIt p2 (c' @ r) = Inr (r, q))"
      using "2.IH"(3) [OF g] False d by blast
    then show ?thesis using g False d by (intro exI [of _ c']) simp
  qed
qed

lemma parseShortOptions_consumes:
  assumes "parseShortOptions p it = Inr (it', q)" "length it' < length it"
  shows "\<exists>c. it = c @ it' \<and> c \<noteq> [] \<and> (\<forall>r. parseShortOptions p (c @ r) = Inr (r, q))"
proof -
  obtain token it1 where it: "it = token # it1" using assms(2) by (cases it) auto
  have pr: "predictShortOption p it"
    using assms by (auto simp: parseShortOptions_def it split: if_splits)
  have prr: "\<And>r. predictShortOption p (token # r)" using pr by (simp add: predictShortOption_def it)
  have "shortLoop token (tl token) p it1 = Inr (it', q)"
    using assms(1) pr by (simp add: parseShortOptions_def it)
  then obtain c where c: "it1 = c @ it'" "\<forall>r. shortLoop token (tl token) p (c @ r) = Inr (r, q)"
    using shortLoop_consumes by blast
  have "\<forall>r. parseShortOptions p ((token # c) @ r) = Inr (r, q)"
    using prr c(2) by (simp add: parseShortOptions_def)
  then show ?thesis using it c(1) by (intro exI [of _ "token # c"]) simp
qed

lemma parseLongOption_predicted:
  "predictLongOption p it \<Longrightarrow> parseLongOption p it = Inr (it2, p2) \<Longrightarrow> length it2 < length it"
  by (auto simp: parseLongOption_def predictLongOption_def Let_def
           split: list.splits sum.splits if_splits)

lemma optionStep_consumes:
  assumes "optionStep p it = Inr (it', q)" "length it' < length it"
  shows "\<exists>c. it = c @ it' \<and> c \<noteq> [] \<and> (\<forall>r. optionStep p (c @ r) = Inr (r, q))"
proof (cases "parseLongOption p it")
  case (Inl e)
  then show ?thesis using assms by (simp add: optionStep_def)
next
  case (Inr r)
  obtain it2 p2 where r: "r = (it2, p2)" by (cases r)
  show ?thesis
  proof (cases "length it2 < length it")
    case True
    then have "it2 = it' \<and> p2 = q" using assms(1) Inr r by (simp add: optionStep_def)
    then obtain c where c: "it = c @ it'" "c \<noteq> []" "\<forall>r. parseLongOption p (c @ r) = Inr (r, q)"
      using parseLongOption_consumes [of p it it' q] Inr r True by auto
    have "\<forall>r. optionStep p (c @ r) = Inr (r, q)" using c(2,3) by (simp add: optionStep_def)
    then show ?thesis using c by blast
  next
    case False
    then have same: "it2 = it \<and> p2 = p" using parseLongOption_same Inr r by blast
    then have sh: "parseShortOptions p it = Inr (it', q)"
      using assms(1) Inr r by (simp add: optionStep_def)
    then obtain c where c: "it = c @ it'" "c \<noteq> []" "\<forall>r. parseShortOptions p (c @ r) = Inr (r, q)"
      using parseShortOptions_consumes assms(2) by blast
    have np: "\<not> predictLongOption p it"
      using parseLongOption_predicted [of p it it p] Inr r same by auto
    obtain t ct where ct: "c = t # ct" using c(2) by (cases c) auto
    have "\<And>r. \<not> predictLongOption p (c @ r)"
      using np c(1) ct by (simp add: predictLongOption_def)
    then have "\<And>r. parseLongOption p (c @ r) = Inr (c @ r, p)"
      using ct by (simp add: parseLongOption_def)
    then have "\<forall>r. optionStep p (c @ r) = Inr (r, q)" using c(3) by (simp add: optionStep_def)
    then show ?thesis using c by blast
  qed
qed

lemma parseTerminator_head:
  "parseTerminator p (t # it) = (t # it, p) \<Longrightarrow> parseTerminator p (t # r) = (t # r, p)"
  by (auto simp: parseTerminator_def split: if_splits)

lemma parseOptions_Nil: "parseOptions p [] = Inr ([], p)"
  by (subst parseOptions_unfold) (simp add: parseTerminator_def parseLongOption_def parseShortOptions_def)

text \<open>Every failing run of the options loop is a run that succeeds on the tokens
  before the failing step, followed by that step.\<close>

lemma parseOptions_failure:
  "parseOptions p it = Inl (e, q) \<Longrightarrow>
   \<exists>pre bad s. it = pre @ bad \<and> parseOptions p pre = Inr ([], s)
     \<and> parseTerminator s bad = (bad, s) \<and> optionStep s bad = Inl (e, q)"
proof (induction "length it" arbitrary: p it rule: less_induct)
  case less
  obtain it1 p1 where tm: "parseTerminator p it = (it1, p1)" by (cases "parseTerminator p it")
  have nl: "\<not> length it1 < length it"
    using less.prems tm by (subst (asm) parseOptions_by_step) (auto split: if_splits)
  then have same: "it1 = it \<and> p1 = p" using parseTerminator_same tm by blast
  show ?case
  proof (cases "optionStep p it")
    case (Inl x)
    then have "x = (e, q)"
      using less.prems tm nl by (subst (asm) parseOptions_by_step) simp
    then have "it = [] @ it \<and> parseOptions p [] = Inr ([], p)
        \<and> parseTerminator p it = (it, p) \<and> optionStep p it = Inl (e, q)"
      using Inl tm same by (simp add: parseOptions_Nil)
    then show ?thesis by blast
  next
    case (Inr r)
    obtain it3 p3 where r: "r = (it3, p3)" by (cases r)
    have l3: "length it3 < length it" and rec: "parseOptions p3 it3 = Inl (e, q)"
      using less.prems tm nl Inr r
      by (subst (asm) parseOptions_by_step; auto split: if_splits)+
    obtain pre bad s where ih: "it3 = pre @ bad" "parseOptions p3 pre = Inr ([], s)"
      "parseTerminator s bad = (bad, s)" "optionStep s bad = Inl (e, q)"
      using less.hyps [OF l3 rec] by blast
    obtain c where c: "it = c @ it3" "c \<noteq> []" "\<forall>r. optionStep p (c @ r) = Inr (r, p3)"
      using optionStep_consumes [of p it it3 p3] Inr r l3 by auto
    obtain t ct where ct: "c = t # ct" using c(2) by (cases c) auto
    have tmc: "parseTerminator p (c @ pre) = (c @ pre, p)"
      using parseTerminator_head [of p t "ct @ it3" "ct @ pre"] tm same c(1) ct by simp
    have "parseOptions p (c @ pre) = Inr ([], s)"
      using tmc c(2,3) ih(2) by (subst parseOptions_by_step) simp
    then have "it = (c @ pre) @ bad \<and> parseOptions p (c @ pre) = Inr ([], s)
        \<and> parseTerminator s bad = (bad, s) \<and> optionStep s bad = Inl (e, q)"
      using c(1) ih by simp
    then show ?thesis by blast
  qed
qed

text \<open>A failing step has written no value and no container element.\<close>

lemma optionDone_store:
  "optionDone i p = Inr q \<Longrightarrow> vars q = vars p \<and> sinks q = sinks p \<and> (\<forall>a. bools p a \<longrightarrow> bools q a)"
  "optionDone i p = Inl (e, q) \<Longrightarrow> q = p"
  by (auto simp: optionDone_def argDone_def split: kind.splits sum.splits)

lemma optionParseDone_failure: "optionParseDone i s p = Inl (e, q) \<Longrightarrow> q = p"
  by (auto simp: optionParseDone_def argParse_def optionDone_def argDone_def
           split: kind.splits sum.splits)

lemma operandParseDone_failure: "operandParseDone i s p = Inl (e, q) \<Longrightarrow> q = p"
  by (auto simp: operandParseDone_def argParse_def operandDone_def argDone_def
           split: kind.splits sum.splits)

lemma parseLongOption_failure: "parseLongOption p it = Inl (e, q) \<Longrightarrow> q = p"
  by (auto simp: parseLongOption_def Let_def
           split: list.splits if_splits sum.splits dest: optionParseDone_failure optionDone_store(2))

lemma shortLoop_failure:
  "shortLoop token cs p it = Inl (e, q) \<Longrightarrow>
   vars q = vars p \<and> sinks q = sinks p \<and> (\<forall>a. bools p a \<longrightarrow> bools q a)"
proof (induction token cs p it rule: shortLoop.induct)
  case (1 token p it)
  then show ?case by simp
next
  case (2 token c nameIt p it)
  show ?case
  proof (cases "getOptionShort p c")
    case (Inl x)
    then show ?thesis using "2.prems" by simp
  next
    case (Inr i)
    show ?thesis
    proof (cases "hasValue (options p ! i)")
      case True
      then show ?thesis
        using "2.prems" Inr
        by (auto split: if_splits sum.splits list.splits dest: optionParseDone_failure)
    next
      case False
      show ?thesis
      proof (cases "optionDone i p")
        case (Inl x)
        then show ?thesis using "2.prems" Inr False optionDone_store(2) [of i p] by auto
      next
        case d: (Inr p2)
        have "shortLoop token nameIt p2 it = Inl (e, q)" using "2.prems" Inr False d by simp
        then have "vars q = vars p2 \<and> sinks q = sinks p2 \<and> (\<forall>a. bools p2 a \<longrightarrow> bools q a)"
          using "2.IH"(3) [OF Inr] False d by blast
        then show ?thesis using optionDone_store(1) [OF d] by simp
      qed
    qed
  qed
qed

lemma optionStep_failure:
  assumes "optionStep p it = Inl (e, q)"
  shows "vars q = vars p \<and> sinks q = sinks p \<and> (\<forall>a. bools p a \<longrightarrow> bools q a)"
proof (cases "parseLongOption p it")
  case (Inl x)
  then show ?thesis using assms parseLongOption_failure [of p it e q] by (simp add: optionStep_def)
next
  case (Inr r)
  obtain it2 p2 where r: "r = (it2, p2)" by (cases r)
  have eq: "length it2 = length it" and sh: "parseShortOptions p2 it2 = Inl (e, q)"
    using assms Inr r by (auto simp: optionStep_def split: if_splits)
  have same: "it2 = it \<and> p2 = p" using parseLongOption_same [of p it it2 p2] Inr r eq by simp
  show ?thesis
    using sh same shortLoop_failure
    by (auto simp: parseShortOptions_def split: list.splits if_splits)
qed

lemma parseTerminator_cases:
  "parseTerminator p it = (it1, p1) \<Longrightarrow>
   (it1 = it \<and> p1 = p)
   \<or> (it = terminator p # it1 \<and> p1 = p\<lparr>isTerminated := True\<rparr> \<and> \<not> isTerminated p
      \<and> terminator p \<noteq> [])"
  by (auto simp: parseTerminator_def split: list.splits if_splits)

lemma predict_head:
  "predictLongOption p (t # it) = predictLongOption p [t]"
  "predictShortOption p (t # it) = predictShortOption p [t]"
  by (simp_all add: predictLongOption_def predictShortOption_def)

lemma parseOperandContent_by_step:
  "parseOperandContent p it i =
     (case parseTerminator p it of
        (it1, p1) \<Rightarrow>
          (case it1 of
             [] \<Rightarrow> Inr (it1, p1)
           | t # it2 \<Rightarrow>
               (case operandStep p1 t i of
                  Inl e \<Rightarrow> Inl e
                | Inr p2 \<Rightarrow>
                    if \<not> isSink (operands p2 ! i) then Inr (it2, p2)
                    else parseOperandContent p2 it2 i)))"
proof -
  obtain it1 p1 where tm: "parseTerminator p it = (it1, p1)" by (cases "parseTerminator p it")
  show ?thesis
  proof (cases it1)
    case Nil
    then show ?thesis using tm by (subst parseOperandContent.simps) simp
  next
    case (Cons t it2)
    have pr: "predictLongOption p1 (t # it2) = predictLongOption p1 [t]"
      "predictShortOption p1 (t # it2) = predictShortOption p1 [t]"
      by (simp_all add: predictLongOption_def predictShortOption_def)
    show ?thesis
      using tm Cons by (subst parseOperandContent.simps) (simp add: operandStep_def pr)
  qed
qed

lemma parseOperandContent_Nil: "parseOperandContent p [] i = Inr ([], p)"
  by (subst parseOperandContent.simps) (simp add: parseTerminator_def)

lemma operandStep_failure: "operandStep p t i = Inl (e, q) \<Longrightarrow> q = p"
  by (auto simp: operandStep_def split: if_splits dest: operandParseDone_failure)

text \<open>Every failing run of the loop of one operand is a run that succeeds on the tokens
  before the failing one, followed by the step on that token.\<close>

lemma parseOperandContent_failure:
  "parseOperandContent p it i = Inl (e, q) \<Longrightarrow>
   \<exists>pre t rest. it = pre @ t # rest \<and> parseOperandContent p pre i = Inr ([], q)
     \<and> parseTerminator q (t # rest) = (t # rest, q) \<and> operandStep q t i = Inl (e, q)"
proof (induction "length it" arbitrary: p it rule: less_induct)
  case less
  obtain it1 p1 where tm: "parseTerminator p it = (it1, p1)" by (cases "parseTerminator p it")
  obtain t it2 where it1: "it1 = t # it2"
    using less.prems tm by (subst (asm) parseOperandContent_by_step) (cases it1; simp)
  have l1: "length it1 \<le> length it" using tm by (rule parseTerminator_length)
  obtain pre0 where pre0: "it = pre0 @ it1" "parseOperandContent p pre0 i = Inr ([], p1)"
    "\<And>r. parseTerminator p (pre0 @ t # r) = (t # r, p1)"
    "parseTerminator p1 it1 = (it1, p1)"
  proof (cases "it1 = it \<and> p1 = p")
    case True
    have "\<And>r. parseTerminator p ([] @ t # r) = (t # r, p1)"
      using parseTerminator_head [of p t it2] tm True it1 by simp
    then show ?thesis
      using that [of "[]"] True tm by (simp add: parseOperandContent_Nil)
  next
    case False
    then have c: "it = terminator p # it1" "p1 = p\<lparr>isTerminated := True\<rparr>" "\<not> isTerminated p"
      "terminator p \<noteq> []"
      using parseTerminator_cases [OF tm] by auto
    have a: "parseOperandContent p [terminator p] i = Inr ([], p1)"
      using c by (subst parseOperandContent.simps) (simp add: parseTerminator_def)
    have b: "\<And>r. parseTerminator p ([terminator p] @ t # r) = (t # r, p1)"
      using c by (simp add: parseTerminator_def)
    have d: "parseTerminator p1 it1 = (it1, p1)"
      using c by (simp add: parseTerminator_def split: list.splits)
    show ?thesis using that [of "[terminator p]"] c a b d by simp
  qed
  show ?case
  proof (cases "operandStep p1 t i")
    case (Inl x)
    then have x: "x = (e, q)"
      using less.prems tm it1 by (subst (asm) parseOperandContent_by_step) simp
    then have q: "q = p1" using Inl operandStep_failure by blast
    have "it = pre0 @ t # it2 \<and> parseOperandContent p pre0 i = Inr ([], q)
        \<and> parseTerminator q (t # it2) = (t # it2, q) \<and> operandStep q t i = Inl (e, q)"
      using pre0 it1 q Inl x by simp
    then show ?thesis by blast
  next
    case (Inr p2)
    have sk: "isSink (operands p2 ! i)" and rec: "parseOperandContent p2 it2 i = Inl (e, q)"
      using less.prems tm it1 Inr
      by (subst (asm) parseOperandContent_by_step; auto split: if_splits)+
    have "length it2 < length it" using l1 it1 by simp
    then obtain pre t' rest where ih: "it2 = pre @ t' # rest"
      "parseOperandContent p2 pre i = Inr ([], q)"
      "parseTerminator q (t' # rest) = (t' # rest, q)" "operandStep q t' i = Inl (e, q)"
      using less.hyps rec by blast
    have "parseOperandContent p (pre0 @ t # pre) i = Inr ([], q)"
      using pre0(3) [of pre] Inr sk ih(2) by (subst parseOperandContent_by_step) simp
    then have "it = (pre0 @ t # pre) @ t' # rest
        \<and> parseOperandContent p (pre0 @ t # pre) i = Inr ([], q)
        \<and> parseTerminator q (t' # rest) = (t' # rest, q) \<and> operandStep q t' i = Inl (e, q)"
      using pre0(1) it1 ih by simp
    then show ?thesis by blast
  qed
qed

lemma parseOperandsLoop_failure:
  "parseOperandsLoop [i ..< n] p it = Inl (e, q) \<Longrightarrow>
   \<exists>k it' s. i \<le> k \<and> k < n \<and> parseOperandsLoop [i ..< k] p it = Inr (it', s)
     \<and> parseOperandContent s it' k = Inl (e, q)"
proof (induction "n - i" arbitrary: i p it)
  case 0
  then show ?case by simp
next
  case (Suc d)
  then have lt: "i < n" by simp
  then have u: "[i ..< n] = i # [Suc i ..< n]" by (simp add: upt_conv_Cons)
  show ?case
  proof (cases "parseOperandContent p it i")
    case (Inl x)
    then have "x = (e, q)" using Suc.prems u by simp
    then have "i \<le> i \<and> i < n \<and> parseOperandsLoop [i ..< i] p it = Inr (it, p)
        \<and> parseOperandContent p it i = Inl (e, q)"
      using Inl lt by simp
    then show ?thesis by blast
  next
    case (Inr r)
    obtain it1 p1 where r: "r = (it1, p1)" by (cases r)
    have rec: "parseOperandsLoop [Suc i ..< n] p1 it1 = Inl (e, q)"
      using Suc.prems u Inr r by simp
    have "d = n - Suc i" using Suc.hyps(2) by simp
    then obtain k it' s where ih: "Suc i \<le> k" "k < n"
      "parseOperandsLoop [Suc i ..< k] p1 it1 = Inr (it', s)"
      "parseOperandContent s it' k = Inl (e, q)"
      using Suc.hyps(1) [of "Suc i" p1 it1] rec by blast
    have "[i ..< k] = i # [Suc i ..< k]" using ih(1) by (simp add: upt_conv_Cons)
    then have "parseOperandsLoop [i ..< k] p it = Inr (it', s)"
      using Inr r ih(3) by simp
    then have "i \<le> k \<and> k < n \<and> parseOperandsLoop [i ..< k] p it = Inr (it', s)
        \<and> parseOperandContent s it' k = Inl (e, q)"
      using ih by simp
    then show ?thesis by blast
  qed
qed

text \<open>
  Claim C9. No stage catches an exception or restores a variable, so the parser that a
  failing parse returns is the parser as it was at the throw, and that is the parser
  which the tokens before the failing one produce when they are parsed with success.
  For every parse that fails, one of three holds. The failure is in the options stage:
  the tokens after the utility name split into a front on which the options loop runs
  to its end with success, and a rest on whose first step (the long stage, then the
  short stage) the exception is thrown; the variables and the containers returned with
  the exception are those after the front, and every flag set by then is still set.
  Or the failure is in the operands stage: the options stage and the operands before
  the failing one have succeeded, the loop of the failing operand succeeds on the
  tokens before the failing one, and the parser returned with the exception is the
  parser after them, unchanged. Or the failure is one of the final checks
  (\<^verbatim>\<open>Unexpected argument\<close>, \<^verbatim>\<open>Cannot find required argument\<close>): the parser returned
  is the parser that all stages have produced. And a conversion that fails writes
  nothing.
\<close>

theorem failure_keeps_writes:
  "(parse p argv = Inl (e, q) \<and> parseUtility p argv = (it1, p1) \<longrightarrow>
     (\<exists>pre bad s. it1 = pre @ bad \<and> parseOptions p1 pre = Inr ([], s)
           \<and> parseTerminator s bad = (bad, s) \<and> optionStep s bad = Inl (e, q)
           \<and> vars q = vars s \<and> sinks q = sinks s \<and> (\<forall>a. bools s a \<longrightarrow> bools q a))
     \<or> (\<exists>it2 p2 k it' s pre t rest. parseOptions p1 it1 = Inr (it2, p2)
           \<and> k < length (operands p2) \<and> parseOperandsLoop [0 ..< k] p2 it2 = Inr (it', s)
           \<and> it' = pre @ t # rest \<and> parseOperandContent s pre k = Inr ([], q)
           \<and> parseTerminator q (t # rest) = (t # rest, q) \<and> operandStep q t k = Inl (e, q))
     \<or> (\<exists>it2 p2 it3 p3. parseOptions p1 it1 = Inr (it2, p2)
           \<and> parseOperands p2 it2 = Inr (it3, p3) \<and> q = snd (parseTerminator p3 it3)
           \<and> (checkEnd q (fst (parseTerminator p3 it3)) = Some e
              \<or> checkRequired q (options q) = Some e \<or> checkRequired q (operands q) = Some e)))
   \<and> (argParse x tx r = Inl (e', r') \<longrightarrow> r' = r)"
proof (rule conjI)
  show "parse p argv = Inl (e, q) \<and> parseUtility p argv = (it1, p1) \<longrightarrow>
       (\<exists>pre bad s. it1 = pre @ bad \<and> parseOptions p1 pre = Inr ([], s)
           \<and> parseTerminator s bad = (bad, s) \<and> optionStep s bad = Inl (e, q)
           \<and> vars q = vars s \<and> sinks q = sinks s \<and> (\<forall>a. bools s a \<longrightarrow> bools q a))
     \<or> (\<exists>it2 p2 k it' s pre t rest. parseOptions p1 it1 = Inr (it2, p2)
           \<and> k < length (operands p2) \<and> parseOperandsLoop [0 ..< k] p2 it2 = Inr (it', s)
           \<and> it' = pre @ t # rest \<and> parseOperandContent s pre k = Inr ([], q)
           \<and> parseTerminator q (t # rest) = (t # rest, q) \<and> operandStep q t k = Inl (e, q))
     \<or> (\<exists>it2 p2 it3 p3. parseOptions p1 it1 = Inr (it2, p2)
           \<and> parseOperands p2 it2 = Inr (it3, p3) \<and> q = snd (parseTerminator p3 it3)
           \<and> (checkEnd q (fst (parseTerminator p3 it3)) = Some e
              \<or> checkRequired q (options q) = Some e \<or> checkRequired q (operands q) = Some e))"
  proof
    assume h: "parse p argv = Inl (e, q) \<and> parseUtility p argv = (it1, p1)"
    then have pu: "parseUtility p argv = (it1, p1)" and pa: "parseAll p argv = Inl (e, q)"
      by (simp_all add: parse_def)
    have body: "(case parseOptions p1 it1 of
               Inl e \<Rightarrow> Inl e
             | Inr (it2, p2) \<Rightarrow>
                 (case parseOperands p2 it2 of
                    Inl e \<Rightarrow> Inl e
                  | Inr (it3, p3) \<Rightarrow>
                      (case parseTerminator p3 it3 of
                         (it4, p4) \<Rightarrow>
                           (case checkEnd p4 it4 of
                              Some e \<Rightarrow> Inl (e, p4)
                            | None \<Rightarrow>
                                (case checkRequired p4 (options p4) of
                                   Some e \<Rightarrow> Inl (e, p4)
                                 | None \<Rightarrow>
                                     (case checkRequired p4 (operands p4) of
                                        Some e \<Rightarrow> Inl (e, p4)
                                      | None \<Rightarrow> Inr p4)))))) = Inl (e, q)"
      using pa unfolding parseAll_def pu by simp
    show "(\<exists>pre bad s. it1 = pre @ bad \<and> parseOptions p1 pre = Inr ([], s)
           \<and> parseTerminator s bad = (bad, s) \<and> optionStep s bad = Inl (e, q)
           \<and> vars q = vars s \<and> sinks q = sinks s \<and> (\<forall>a. bools s a \<longrightarrow> bools q a))
     \<or> (\<exists>it2 p2 k it' s pre t rest. parseOptions p1 it1 = Inr (it2, p2)
           \<and> k < length (operands p2) \<and> parseOperandsLoop [0 ..< k] p2 it2 = Inr (it', s)
           \<and> it' = pre @ t # rest \<and> parseOperandContent s pre k = Inr ([], q)
           \<and> parseTerminator q (t # rest) = (t # rest, q) \<and> operandStep q t k = Inl (e, q))
     \<or> (\<exists>it2 p2 it3 p3. parseOptions p1 it1 = Inr (it2, p2)
           \<and> parseOperands p2 it2 = Inr (it3, p3) \<and> q = snd (parseTerminator p3 it3)
           \<and> (checkEnd q (fst (parseTerminator p3 it3)) = Some e
              \<or> checkRequired q (options q) = Some e \<or> checkRequired q (operands q) = Some e))"
    proof (cases "parseOptions p1 it1")
      case (Inl x)
      then have "parseOptions p1 it1 = Inl (e, q)" using body by simp
      then obtain pre bad s where d: "it1 = pre @ bad" "parseOptions p1 pre = Inr ([], s)"
        "parseTerminator s bad = (bad, s)" "optionStep s bad = Inl (e, q)"
        using parseOptions_failure by blast
      have "vars q = vars s \<and> sinks q = sinks s \<and> (\<forall>a. bools s a \<longrightarrow> bools q a)"
        using d(4) by (rule optionStep_failure)
      then show ?thesis using d by blast
    next
      case (Inr r)
      obtain it2 p2 where r: "r = (it2, p2)" by (cases r)
      show ?thesis
      proof (cases "parseOperands p2 it2")
        case (Inl x)
        then have "parseOperandsLoop [0 ..< length (operands p2)] p2 it2 = Inl (e, q)"
          using body Inr r by (simp add: parseOperands_def)
        then obtain k it' s where k: "k < length (operands p2)"
          "parseOperandsLoop [0 ..< k] p2 it2 = Inr (it', s)"
          "parseOperandContent s it' k = Inl (e, q)"
          using parseOperandsLoop_failure by blast
        obtain pre t rest where d: "it' = pre @ t # rest" "parseOperandContent s pre k = Inr ([], q)"
          "parseTerminator q (t # rest) = (t # rest, q)" "operandStep q t k = Inl (e, q)"
          using parseOperandContent_failure [OF k(3)] by blast
        show ?thesis using Inr r k(1,2) d by blast
      next
        case op: (Inr r3)
        obtain it3 p3 where r3: "r3 = (it3, p3)" by (cases r3)
        obtain it4 p4 where tm: "parseTerminator p3 it3 = (it4, p4)" by (cases "parseTerminator p3 it3")
        have "q = p4 \<and> (checkEnd p4 it4 = Some e
              \<or> checkRequired p4 (options p4) = Some e \<or> checkRequired p4 (operands p4) = Some e)"
          using body Inr r op r3 tm
          by (auto split: option.splits)
        then show ?thesis using Inr r op r3 tm by auto
      qed
    qed
  qed
  show "argParse x tx r = Inl (e', r') \<longrightarrow> r' = r"
    using argParse_failure_writes_nothing by blast
qed

theorem failure_keeps_writes_witness:
  "vars exampleParser 2 = StrV ''a'' \<and> vars exampleParser 0 = IntV 1
   \<and> (\<exists>e q it1 p1.
        parse exampleParser [''prog'', ''-i'', ''7'', ''-a'', ''A'', ''-xy'', ''z''] = Inl (e, q)
        \<and> parseUtility exampleParser [''prog'', ''-i'', ''7'', ''-a'', ''A'', ''-xy'', ''z''] = (it1, p1)
        \<and> it1 = [''-i'', ''7'', ''-a'', ''A'', ''-xy'', ''z'']
        \<and> e = Error ''Unknown option name: x'' \<and> vars q 0 = IntV 7 \<and> vars q 2 = StrV ''A''
        \<and> ((\<exists>pre bad s. it1 = pre @ bad \<and> parseOptions p1 pre = Inr ([], s)
              \<and> parseTerminator s bad = (bad, s) \<and> optionStep s bad = Inl (e, q)
              \<and> vars q = vars s \<and> sinks q = sinks s \<and> (\<forall>a. bools s a \<longrightarrow> bools q a))
        \<or> (\<exists>it2 p2 k it' s pre t rest. parseOptions p1 it1 = Inr (it2, p2)
              \<and> k < length (operands p2) \<and> parseOperandsLoop [0 ..< k] p2 it2 = Inr (it', s)
              \<and> it' = pre @ t # rest \<and> parseOperandContent s pre k = Inr ([], q)
              \<and> parseTerminator q (t # rest) = (t # rest, q) \<and> operandStep q t k = Inl (e, q))
        \<or> (\<exists>it2 p2 it3 p3. parseOptions p1 it1 = Inr (it2, p2)
              \<and> parseOperands p2 it2 = Inr (it3, p3) \<and> q = snd (parseTerminator p3 it3)
              \<and> (checkEnd q (fst (parseTerminator p3 it3)) = Some e
                 \<or> checkRequired q (options q) = Some e \<or> checkRequired q (operands q) = Some e))))
   \<and> (case parseOptions (exampleParser\<lparr>utilityName := ''prog''\<rparr>) [''-i'', ''7'', ''-a'', ''A''] of
        Inl e \<Rightarrow> False
      | Inr (it, s) \<Rightarrow> it = [] \<and> vars s 0 = IntV 7 \<and> vars s 2 = StrV ''A'')
   \<and> (case parse exampleParser [''prog'', ''-a'', ''A'', ''--int''] of
        Inl (e, q) \<Rightarrow> e = Error ''Cannot find value for option: --int'' \<and> vars q 2 = StrV ''A''
      | Inr q \<Rightarrow> False)
   \<and> (case parse exampleParser [''prog'', ''-a'', ''A'', ''--bool=1''] of
        Inl (e, q) \<Rightarrow> e = Error ''Unexpected option value: --bool=1'' \<and> vars q 2 = StrV ''A''
      | Inr q \<Rightarrow> False)
   \<and> (case parse exampleParser [''prog'', ''-i'', ''7'', ''-a'', ''A'', ''-i'', ''9x9''] of
        Inl (e, q) \<Rightarrow> e = Error ''Cannot parse integer: 9x9'' \<and> vars q 2 = StrV ''A''
          \<and> vars q 0 = IntV 7
      | Inr q \<Rightarrow> False)
   \<and> (case parse exampleParser [''prog'', ''-a'', ''A'', ''out'', ''f'', ''-x''] of
        Inl (e, q) \<Rightarrow> e = Error ''Unexpected option: -x'' \<and> vars q 2 = StrV ''A''
          \<and> vars q 1 = StrV ''out'' \<and> sinks q 0 = [StrV ''f'']
      | Inr q \<Rightarrow> False)
   \<and> (case parse (exampleParser\<lparr>operands := take 1 (operands exampleParser)\<rparr>)
             [''prog'', ''-b'', ''-a'', ''A'', ''out'', ''f''] of
        Inl (e, q) \<Rightarrow> e = Error ''Unexpected argument: f'' \<and> bools q 0 \<and> vars q 2 = StrV ''A''
          \<and> vars q 1 = StrV ''out''
      | Inr q \<Rightarrow> False)
   \<and> (case parse exampleParser [''prog'', ''-a'', ''A'', ''out'', ''f''] of
        Inl (e, q) \<Rightarrow> e = Error ''Cannot find required argument: -b'' \<and> vars q 2 = StrV ''A''
          \<and> vars q 1 = StrV ''out'' \<and> sinks q 0 = [StrV ''f'']
      | Inr q \<Rightarrow> False)"
proof -
  let ?argv = "[''prog'', ''-i'', ''7'', ''-a'', ''A'', ''-xy'', ''z'']"
  have c: "vars exampleParser 2 = StrV ''a''" "vars exampleParser 0 = IntV 1"
    by (simp_all add: example_defs)
  have "case parse exampleParser ?argv of
        Inl (e, q) \<Rightarrow> e = Error ''Unknown option name: x'' \<and> vars q 0 = IntV 7
          \<and> vars q 2 = StrV ''A''
      | Inr q \<Rightarrow> False"
    by code_simp
  then obtain e q where pq: "parse exampleParser ?argv = Inl (e, q)"
    "e = Error ''Unknown option name: x''" "vars q 0 = IntV 7" "vars q 2 = StrV ''A''"
    by (cases "parse exampleParser ?argv") auto
  obtain it1 p1 where pu: "parseUtility exampleParser ?argv = (it1, p1)"
    "it1 = [''-i'', ''7'', ''-a'', ''A'', ''-xy'', ''z'']"
    by (simp add: parseUtility_def)
  have a: "parse exampleParser ?argv = Inl (e, q) \<and> parseUtility exampleParser ?argv = (it1, p1)"
    using pq(1) pu(1) by simp
  have d: "(\<exists>pre bad s. it1 = pre @ bad \<and> parseOptions p1 pre = Inr ([], s)
              \<and> parseTerminator s bad = (bad, s) \<and> optionStep s bad = Inl (e, q)
              \<and> vars q = vars s \<and> sinks q = sinks s \<and> (\<forall>a. bools s a \<longrightarrow> bools q a))
        \<or> (\<exists>it2 p2 k it' s pre t rest. parseOptions p1 it1 = Inr (it2, p2)
              \<and> k < length (operands p2) \<and> parseOperandsLoop [0 ..< k] p2 it2 = Inr (it', s)
              \<and> it' = pre @ t # rest \<and> parseOperandContent s pre k = Inr ([], q)
              \<and> parseTerminator q (t # rest) = (t # rest, q) \<and> operandStep q t k = Inl (e, q))
        \<or> (\<exists>it2 p2 it3 p3. parseOptions p1 it1 = Inr (it2, p2)
              \<and> parseOperands p2 it2 = Inr (it3, p3) \<and> q = snd (parseTerminator p3 it3)
              \<and> (checkEnd q (fst (parseTerminator p3 it3)) = Some e
                 \<or> checkRequired q (options q) = Some e \<or> checkRequired q (operands q) = Some e))"
    using failure_keeps_writes [of exampleParser ?argv e q it1 p1] a by blast
  have 1: "\<exists>e q it1 p1.
        parse exampleParser ?argv = Inl (e, q)
        \<and> parseUtility exampleParser ?argv = (it1, p1)
        \<and> it1 = [''-i'', ''7'', ''-a'', ''A'', ''-xy'', ''z'']
        \<and> e = Error ''Unknown option name: x'' \<and> vars q 0 = IntV 7 \<and> vars q 2 = StrV ''A''
        \<and> ((\<exists>pre bad s. it1 = pre @ bad \<and> parseOptions p1 pre = Inr ([], s)
              \<and> parseTerminator s bad = (bad, s) \<and> optionStep s bad = Inl (e, q)
              \<and> vars q = vars s \<and> sinks q = sinks s \<and> (\<forall>a. bools s a \<longrightarrow> bools q a))
        \<or> (\<exists>it2 p2 k it' s pre t rest. parseOptions p1 it1 = Inr (it2, p2)
              \<and> k < length (operands p2) \<and> parseOperandsLoop [0 ..< k] p2 it2 = Inr (it', s)
              \<and> it' = pre @ t # rest \<and> parseOperandContent s pre k = Inr ([], q)
              \<and> parseTerminator q (t # rest) = (t # rest, q) \<and> operandStep q t k = Inl (e, q))
        \<or> (\<exists>it2 p2 it3 p3. parseOptions p1 it1 = Inr (it2, p2)
              \<and> parseOperands p2 it2 = Inr (it3, p3) \<and> q = snd (parseTerminator p3 it3)
              \<and> (checkEnd q (fst (parseTerminator p3 it3)) = Some e
                 \<or> checkRequired q (options q) = Some e \<or> checkRequired q (operands q) = Some e)))"
  proof (intro exI conjI)
    show "parse exampleParser ?argv = Inl (e, q)" by (rule pq(1))
    show "parseUtility exampleParser ?argv = (it1, p1)" by (rule pu(1))
    show "it1 = [''-i'', ''7'', ''-a'', ''A'', ''-xy'', ''z'']" by (rule pu(2))
    show "e = Error ''Unknown option name: x''" by (rule pq(2))
    show "vars q 0 = IntV 7" by (rule pq(3))
    show "vars q 2 = StrV ''A''" by (rule pq(4))
    show "(\<exists>pre bad s. it1 = pre @ bad \<and> parseOptions p1 pre = Inr ([], s)
              \<and> parseTerminator s bad = (bad, s) \<and> optionStep s bad = Inl (e, q)
              \<and> vars q = vars s \<and> sinks q = sinks s \<and> (\<forall>a. bools s a \<longrightarrow> bools q a))
        \<or> (\<exists>it2 p2 k it' s pre t rest. parseOptions p1 it1 = Inr (it2, p2)
              \<and> k < length (operands p2) \<and> parseOperandsLoop [0 ..< k] p2 it2 = Inr (it', s)
              \<and> it' = pre @ t # rest \<and> parseOperandContent s pre k = Inr ([], q)
              \<and> parseTerminator q (t # rest) = (t # rest, q) \<and> operandStep q t k = Inl (e, q))
        \<or> (\<exists>it2 p2 it3 p3. parseOptions p1 it1 = Inr (it2, p2)
              \<and> parseOperands p2 it2 = Inr (it3, p3) \<and> q = snd (parseTerminator p3 it3)
              \<and> (checkEnd q (fst (parseTerminator p3 it3)) = Some e
                 \<or> checkRequired q (options q) = Some e \<or> checkRequired q (operands q) = Some e))"
      by (rule d)
  qed
  have 0: "case parseOptions (exampleParser\<lparr>utilityName := ''prog''\<rparr>) [''-i'', ''7'', ''-a'', ''A''] of
        Inl e \<Rightarrow> False
      | Inr (it, s) \<Rightarrow> it = [] \<and> vars s 0 = IntV 7 \<and> vars s 2 = StrV ''A''"
    by code_simp
  have 2: "case parse exampleParser [''prog'', ''-a'', ''A'', ''--int''] of
        Inl (e, q) \<Rightarrow> e = Error ''Cannot find value for option: --int'' \<and> vars q 2 = StrV ''A''
      | Inr q \<Rightarrow> False"
    by code_simp
  have 3: "case parse exampleParser [''prog'', ''-a'', ''A'', ''--bool=1''] of
        Inl (e, q) \<Rightarrow> e = Error ''Unexpected option value: --bool=1'' \<and> vars q 2 = StrV ''A''
      | Inr q \<Rightarrow> False"
    by code_simp
  have 4: "case parse exampleParser [''prog'', ''-i'', ''7'', ''-a'', ''A'', ''-i'', ''9x9''] of
        Inl (e, q) \<Rightarrow> e = Error ''Cannot parse integer: 9x9'' \<and> vars q 2 = StrV ''A''
          \<and> vars q 0 = IntV 7
      | Inr q \<Rightarrow> False"
    by code_simp
  have 5: "case parse exampleParser [''prog'', ''-a'', ''A'', ''out'', ''f'', ''-x''] of
        Inl (e, q) \<Rightarrow> e = Error ''Unexpected option: -x'' \<and> vars q 2 = StrV ''A''
          \<and> vars q 1 = StrV ''out'' \<and> sinks q 0 = [StrV ''f'']
      | Inr q \<Rightarrow> False"
    by code_simp
  have 6: "case parse (exampleParser\<lparr>operands := take 1 (operands exampleParser)\<rparr>)
             [''prog'', ''-b'', ''-a'', ''A'', ''out'', ''f''] of
        Inl (e, q) \<Rightarrow> e = Error ''Unexpected argument: f'' \<and> bools q 0 \<and> vars q 2 = StrV ''A''
          \<and> vars q 1 = StrV ''out''
      | Inr q \<Rightarrow> False"
    by code_simp
  have 7: "case parse exampleParser [''prog'', ''-a'', ''A'', ''out'', ''f''] of
        Inl (e, q) \<Rightarrow> e = Error ''Cannot find required argument: -b'' \<and> vars q 2 = StrV ''A''
          \<and> vars q 1 = StrV ''out'' \<and> sinks q 0 = [StrV ''f'']
      | Inr q \<Rightarrow> False"
    by code_simp
  show ?thesis using c 0 1 2 3 4 5 6 7 by blast
qed

section \<open>Properties of the help writer\<close>

subsection \<open>The default value in the glossary\<close>

lemma glossary_default_shown:
  assumes "kind a = ValueArg T target d" "\<not> isRequired a" "defaultIntro p \<noteq> []" "toString d \<noteq> []"
  shows "entryDescription (glossaryEntry p hs a) =
     tokenize (description a) @ [''('' @ defaultIntro p @ toString d @ '')'']"
  using assms by (simp add: glossaryEntry_def getDefaultValue_def doGetDefaultValue_def Let_def)

lemma glossary_default_absent:
  assumes "isRequired a \<or> defaultIntro p = [] \<or> kind a = SignalArg \<or> kind a = BoolArg b
     \<or> kind a = SinkArg T target"
  shows "entryDescription (glossaryEntry p hs a) = tokenize (description a)"
  using assms by (auto simp: glossaryEntry_def getDefaultValue_def doGetDefaultValue_def Let_def)

lemma declared_default:
  "kind (last (options (addOption T target sn lname vn desc req p))) = ValueArg T target (vars p target)"
  "kind (last (operands (addOperand T target vn desc req p))) = ValueArg T target (vars p target)"
  by (simp_all add: addOption_def addOperand_def mkValueArg_def)

text \<open>
  Claim C7, as amended. For a value argument that is not required, with a non-empty
  default-value label, the glossary appends one token to the description: the label and
  the text of \<^verbatim>\<open>default_\<close> in parentheses, when that text is not empty.
  \<^verbatim>\<open>default_\<close> is the value the bound variable held when the argument was declared
  (\<^verbatim>\<open>addOption\<close>, \<^verbatim>\<open>addOperand\<close>), not the value it holds when the help is written:
  no parse, whether it returns or throws, changes \<^verbatim>\<open>default_\<close> of any argument.
\<close>

theorem glossary_default:
  "(kind a = ValueArg T target d \<and> \<not> isRequired a \<and> defaultIntro p \<noteq> [] \<and> toString d \<noteq> [] \<longrightarrow>
      entryDescription (glossaryEntry p hs a) =
        tokenize (description a) @ [''('' @ defaultIntro p @ toString d @ '')''])
   \<and> kind (last (options (addOption T target sn lname vn desc req p))) =
        ValueArg T target (vars p target)
   \<and> kind (last (operands (addOperand T target vn desc req p))) =
        ValueArg T target (vars p target)
   \<and> sameKinds p (finalState (parse p argv))"
  using glossary_default_shown [of a T target d p hs] declared_default
    stable_parse [OF stable_sameKinds, of p argv]
  by blast

theorem glossary_default_witness:
  "kind (options exampleParser ! 3) = ValueArg (IntT True W32) 0 (IntV 1)
   \<and> \<not> isRequired (options exampleParser ! 3) \<and> defaultIntro exampleParser = ''default: ''
   \<and> toString (IntV 1) = ''1''
   \<and> entryDescription (glossaryEntry exampleParser True (options exampleParser ! 3)) =
       [''A'', ''number'', ''(default: 1)'']"
proof -
  have c: "kind (options exampleParser ! 3) = ValueArg (IntT True W32) 0 (IntV 1)"
    "\<not> isRequired (options exampleParser ! 3)" "defaultIntro exampleParser = ''default: ''"
    "description (options exampleParser ! 3) = ''A number''"
    by (simp_all add: example_defs)
  have s: "toString (IntV 1) = ''1''" by (simp add: show_defs)
  have t: "tokenize ''A number'' = [''A'', ''number'']" by (simp add: isWordChar_def)
  have "entryDescription (glossaryEntry exampleParser True (options exampleParser ! 3)) =
       [''A'', ''number'', ''(default: 1)'']"
    using glossary_default [of "options exampleParser ! 3" "IntT True W32" 0 "IntV 1"
        exampleParser True] c s t
    by simp
  then show ?thesis using c s by simp
qed

text \<open>
  Claim C7 as stated fails once a parse has written the variable: after
  \<^verbatim>\<open>-i 22\<close> the bound variable holds 22, rendered \<^verbatim>\<open>22\<close>, and the glossary entry of
  the option still ends in \<^verbatim>\<open>(default: 1)\<close>.
\<close>

theorem glossary_default_counterexample:
  "case parse exampleParser [''prog'', ''-i'', ''22'', ''-b'', ''o'', ''f''] of
      Inl e \<Rightarrow> False
    | Inr q \<Rightarrow> vars q 0 = IntV 22 \<and> toString (vars q 0) = ''22''
        \<and> kind (options q ! 3) = ValueArg (IntT True W32) 0 (IntV 1)
        \<and> entryDescription (glossaryEntry q True (options q ! 3)) =
            [''A'', ''number'', ''(default: 1)'']"
  by code_simp

subsection \<open>Wrapping\<close>

lemma wrapLoop_step:
  "wrapLoop w h pos sp (t # ts) =
     (if t = [CHR 0x0A] then CHR 0x0A # wrapLoop w h 0 h ts
      else if w < pos + sp + length t \<and> h < pos
           then CHR 0x0A # replicate h CHR '' '' @ t @ wrapLoop w h (h + length t) 1 ts
           else replicate sp CHR '' '' @ t @ wrapLoop w h (pos + sp + length t) 1 ts)"
  by (simp add: Let_def)

lemma wrapLoop_layout:
  "\<exists>seps. length seps = length ts \<and> (\<forall>s \<in> set seps. set s \<subseteq> {CHR '' '', CHR 0x0A})
     \<and> wrapLoop w h pos sp ts =
         concat (map2 (\<lambda>s t. s @ (if t = [CHR 0x0A] then [] else t)) seps ts)"
proof (induction ts arbitrary: pos sp)
  case Nil
  show ?case by simp
next
  case (Cons t ts)
  show ?case
  proof (cases "t = [CHR 0x0A]")
    case True
    obtain seps where s: "length seps = length ts" "\<forall>s \<in> set seps. set s \<subseteq> {CHR '' '', CHR 0x0A}"
      "wrapLoop w h 0 h ts = concat (map2 (\<lambda>s t. s @ (if t = [CHR 0x0A] then [] else t)) seps ts)"
      using Cons.IH [of 0 h] by blast
    show ?thesis
      by (rule exI [of _ "[CHR 0x0A] # seps"]) (use True s in \<open>simp add: Let_def\<close>)
  next
    case nn: False
    show ?thesis
    proof (cases "w < pos + sp + length t \<and> h < pos")
      case True
      obtain seps where s: "length seps = length ts" "\<forall>s \<in> set seps. set s \<subseteq> {CHR '' '', CHR 0x0A}"
        "wrapLoop w h (h + length t) 1 ts =
           concat (map2 (\<lambda>s t. s @ (if t = [CHR 0x0A] then [] else t)) seps ts)"
        using Cons.IH [of "h + length t" 1] by blast
      show ?thesis
        by (rule exI [of _ "(CHR 0x0A # replicate h CHR '' '') # seps"])
           (use nn True s in \<open>auto simp add: Let_def\<close>)
    next
      case False
      obtain seps where s: "length seps = length ts" "\<forall>s \<in> set seps. set s \<subseteq> {CHR '' '', CHR 0x0A}"
        "wrapLoop w h (pos + sp + length t) 1 ts =
           concat (map2 (\<lambda>s t. s @ (if t = [CHR 0x0A] then [] else t)) seps ts)"
        using Cons.IH [of "pos + sp + length t" 1] by blast
      show ?thesis
        by (rule exI [of _ "replicate sp CHR '' '' # seps"])
           (use nn False s in \<open>auto simp add: Let_def\<close>)
    qed
  qed
qed

lemma wrapLoop_overlong:
  assumes "w < length t" "t \<noteq> [CHR 0x0A]"
  shows "wrapLoop w h pos sp (t # ts) =
     (if h < pos then CHR 0x0A # replicate h CHR '' '' @ t @ wrapLoop w h (h + length t) 1 ts
      else replicate sp CHR '' '' @ t @ wrapLoop w h (pos + sp + length t) 1 ts)"
  using assms by (simp add: Let_def)

lemma wrapLoop_after_overlong:
  assumes "w < length t" "t2 \<noteq> [CHR 0x0A]"
  shows "wrapLoop w h (h + length t) 1 (t2 # ts) =
     CHR 0x0A # replicate h CHR '' '' @ t2 @ wrapLoop w h (h + length t2) 1 ts"
  using assms by (auto simp: Let_def)

text \<open>
  Claim C8, as amended. The loop of \<^verbatim>\<open>writeWrapped\<close> writes a line break before a
  token exactly when the token is the newline token, or when the position, the pending
  spaces and the token exceed the width and the position is past the hanging indent.
  It is a recursion over the tokens, so it ends for every list and every width, zero
  included, and its output is the tokens in order, each whole, with only spaces and
  line breaks between them (the newline tokens written as the breaks). A token longer
  than the width is written whole: after a break and the hanging indent when the
  position is past the hanging indent, and then a following token starts the next
  line; otherwise on the current line, after the pending spaces, with no break.
\<close>

theorem wrapping:
  "wrapLoop w h pos sp (t # ts) =
     (if t = [CHR 0x0A] then CHR 0x0A # wrapLoop w h 0 h ts
      else if w < pos + sp + length t \<and> h < pos
           then CHR 0x0A # replicate h CHR '' '' @ t @ wrapLoop w h (h + length t) 1 ts
           else replicate sp CHR '' '' @ t @ wrapLoop w h (pos + sp + length t) 1 ts)
   \<and> (\<exists>seps. length seps = length tokens \<and> (\<forall>s \<in> set seps. set s \<subseteq> {CHR '' '', CHR 0x0A})
        \<and> wrapLoop w h pos sp tokens =
            concat (map2 (\<lambda>s t. s @ (if t = [CHR 0x0A] then [] else t)) seps tokens))
   \<and> (w < length t \<and> t \<noteq> [CHR 0x0A] \<longrightarrow>
        wrapLoop w h pos sp (t # ts) =
          (if h < pos
           then CHR 0x0A # replicate h CHR '' '' @ t @ wrapLoop w h (h + length t) 1 ts
           else replicate sp CHR '' '' @ t @ wrapLoop w h (pos + sp + length t) 1 ts))
   \<and> (w < length t \<and> t2 \<noteq> [CHR 0x0A] \<longrightarrow>
        wrapLoop w h (h + length t) 1 (t2 # ts) =
          CHR 0x0A # replicate h CHR '' '' @ t2 @ wrapLoop w h (h + length t2) 1 ts)"
  using wrapLoop_step [of w h pos sp t ts] wrapLoop_layout [of tokens w h pos sp]
    wrapLoop_overlong [of w t h pos sp ts] wrapLoop_after_overlong [of w t t2 h ts]
  by blast

theorem wrapping_witness:
  "(21::nat) < length ''Anotherverylongtokenxx''
   \<and> wrapLoop 21 6 18 1 [''Anotherverylongtokenxx'', ''ok''] =
       [CHR 0x0A] @ ''      Anotherverylongtokenxx'' @ [CHR 0x0A] @ ''      ok''
   \<and> wrapLoop 21 6 6 0 [''Anotherverylongtokenxx'', ''ok''] =
       ''Anotherverylongtokenxx'' @ [CHR 0x0A] @ ''      ok''
   \<and> wrapLoop 0 4 2 0 [''hello'', ''[-a AA]''] =
       ''hello'' @ [CHR 0x0A] @ ''    [-a AA]''"
proof -
  have r: "replicate 6 CHR '' '' = ''      ''" "replicate 4 CHR '' '' = ''    ''"
    by (simp_all add: numeral_eq_Suc)
  have 1: "wrapLoop 21 6 18 1 [''Anotherverylongtokenxx'', ''ok''] =
       [CHR 0x0A] @ ''      Anotherverylongtokenxx'' @ [CHR 0x0A] @ ''      ok''"
    using wrapping [of 21 6 18 1 "''Anotherverylongtokenxx''" "[''ok'']" "[]" "''ok''"]
      wrapping [of 21 6 "6 + length ''Anotherverylongtokenxx''" 1 "''ok''" "[]" "[]" "[]"] r
    by simp
  have 2: "wrapLoop 21 6 6 0 [''Anotherverylongtokenxx'', ''ok''] =
       ''Anotherverylongtokenxx'' @ [CHR 0x0A] @ ''      ok''"
    using wrapping [of 21 6 6 0 "''Anotherverylongtokenxx''" "[''ok'']" "[]" "''ok''"]
      wrapping [of 21 6 "6 + length ''Anotherverylongtokenxx''" 1 "''ok''" "[]" "[]" "[]"] r
    by simp
  have 3: "wrapLoop 0 4 2 0 [''hello'', ''[-a AA]''] = ''hello'' @ [CHR 0x0A] @ ''    [-a AA]''"
    using wrapping [of 0 4 2 0 "''hello''" "[''[-a AA]'']" "[]" "[]"]
      wrapping [of 0 4 "2 + length ''hello''" 1 "''[-a AA]''" "[]" "[]" "[]"] r
    by simp
  show ?thesis using 1 2 3 by simp
qed

text \<open>
  Claim C8 as stated fails where the position is not past the hanging indent: in the
  usage line (initial position 2, hanging indent 4) after the utility name \<^verbatim>\<open>a\<close> the
  position is 3, and the token of 27 characters, longer than the width 21, is written
  on the same line after one space, not at the start of a line of its own.
\<close>

theorem wrapping_counterexample:
  "helpWidth usageExample = 21 \<and> helpIndent usageExample = 2
   \<and> map (usageToken usageExample) (options usageExample) = [''[--averyveryverylongoption]'']
   \<and> length ''[--averyveryverylongoption]'' = 27
   \<and> writeWrapped usageExample [''a'', ''[--averyveryverylongoption]''] 2 4 =
       ''a [--averyveryverylongoption]''
   \<and> writeUsage usageExample =
       ''USAGE'' @ [CHR 0x0A] @ ''  a [--averyveryverylongoption]'' @ [CHR 0x0A, CHR 0x0A]"
proof -
  have 1: "helpWidth usageExample = 21 \<and> helpIndent usageExample = 2"
    by (simp add: usageExample_def newParser_def addOptionBool_def)
  have 2: "map (usageToken usageExample) (options usageExample) = [''[--averyveryverylongoption]'']"
    by code_simp
  have 3: "length ''[--averyveryverylongoption]'' = 27" by simp
  have 4: "writeWrapped usageExample [''a'', ''[--averyveryverylongoption]''] 2 4 =
       ''a [--averyveryverylongoption]''"
    by code_simp
  have 5: "writeUsage usageExample =
       ''USAGE'' @ [CHR 0x0A] @ ''  a [--averyveryverylongoption]'' @ [CHR 0x0A, CHR 0x0A]"
    by code_simp
  show ?thesis using 1 2 3 4 5 by blast
qed

end
